theory Spec2Isabelle
  imports Main "HOL-Library.Char_ord" "HOL-Library.List_Lexorder"
begin

section \<open>Data model (src/jobs.ts and the schema of src/queue.ts)\<close>

text \<open>
  The queue keeps two SQLite tables. A table is modelled as the list of its rows in rowid
  order, together with the AUTOINCREMENT counter that SQLite keeps for it in
  \<open>sqlite_sequence\<close>. Timestamps (\<open>Date.now()\<close>, milliseconds) and row ids are
  integers. Every function that reads the clock in the source takes the clock value
  \<open>now\<close> as an argument here.
\<close>

datatype JobStatus = Pending | Processing | Done | Failed

record PersistedJob =
  j_id :: int
  j_type :: string
  j_data :: string
  j_status :: JobStatus
  j_createdAt :: int
  j_failedAt :: "int option"
  j_error :: "string option"

datatype ScheduledJobStatus = ScheduledIdle | ScheduledProcessing

record PersistedScheduledJob =
  sj_id :: int
  sj_type :: string
  sj_status :: ScheduledJobStatus
  sj_createdAt :: int
  sj_cronExpression :: string
  sj_nextRun :: int

record Store =
  jobs :: "PersistedJob list"
  jobs_seq :: int
  scheduled_jobs :: "PersistedScheduledJob list"
  scheduled_jobs_seq :: int

definition empty_store :: Store where
  "empty_store = \<lparr>jobs = [], jobs_seq = 0, scheduled_jobs = [], scheduled_jobs_seq = 0\<rparr>"

text \<open>
  Errors are values. \<open>Error msg\<close> is the JavaScript \<open>Error\<close> that \<open>schedule\<close> throws;
  \<open>SqliteError code\<close> is a constraint violation raised by a statement (the column
  \<open>data\<close> is \<open>NOT NULL\<close>, the column \<open>type\<close> of the scheduled jobs is \<open>UNIQUE\<close>).
\<close>

datatype error = Error string | SqliteError string

section \<open>SQL building blocks\<close>

definition sql_update :: "('r \<Rightarrow> bool) \<Rightarrow> ('r \<Rightarrow> 'r) \<Rightarrow> 'r list \<Rightarrow> 'r list" where
  "sql_update wh upd rows = map (\<lambda>r. if wh r then upd r else r) rows"

definition sql_delete :: "('r \<Rightarrow> bool) \<Rightarrow> 'r list \<Rightarrow> 'r list" where
  "sql_delete wh rows = filter (\<lambda>r. \<not> wh r) rows"

definition sql_changes :: "('r \<Rightarrow> bool) \<Rightarrow> 'r list \<Rightarrow> nat" where
  "sql_changes wh rows = length (filter wh rows)"

text \<open>
  \<open>SELECT ... WHERE wh ORDER BY key LIMIT 1\<close>: the matching rows are sorted by the key
  with a stable sort, so that among rows with equal keys the one with the smallest rowid
  comes first (the order in which SQLite walks the index on \<open>(status, type, created_at)\<close>),
  and the first row is taken.
\<close>

definition sql_first :: "'r list \<Rightarrow> 'r option" where
  "sql_first rows = (case rows of [] \<Rightarrow> None | r # _ \<Rightarrow> Some r)"

definition sql_select_order_limit1 :: "('r \<Rightarrow> bool) \<Rightarrow> ('r \<Rightarrow> int) \<Rightarrow> 'r list \<Rightarrow> 'r option" where
  "sql_select_order_limit1 wh key rows = sql_first (sort_key key (filter wh rows))"

text \<open>
  \<open>INTEGER PRIMARY KEY AUTOINCREMENT\<close>: the new rowid is one more than the largest
  rowid that the table holds or has ever held.
\<close>

definition next_rowid :: "int \<Rightarrow> int list \<Rightarrow> int" where
  "next_rowid seq ids = foldr max ids seq + 1"

section \<open>Prepared statements (src/queue.ts)\<close>

definition removeDoneJobsStmt :: "int \<Rightarrow> PersistedJob \<Rightarrow> bool" where
  "removeDoneJobsStmt threshold r = (j_status r = Done \<and> j_createdAt r < threshold)"

text \<open>\<open>failed_at < @threshold\<close> is not true when \<open>failed_at\<close> is NULL.\<close>

definition removeFailedJobsStmt :: "int \<Rightarrow> PersistedJob \<Rightarrow> bool" where
  "removeFailedJobsStmt threshold r =
     (j_status r = Failed \<and> (case j_failedAt r of None \<Rightarrow> False | Some f \<Rightarrow> f < threshold))"

definition countJobsStmt :: "PersistedJob list \<Rightarrow> nat" where
  "countJobsStmt rows = length rows"

definition countJobsByTypeAndStatusStmt :: "JobStatus \<Rightarrow> string \<Rightarrow> PersistedJob list \<Rightarrow> nat" where
  "countJobsByTypeAndStatusStmt st ty rows =
     length (filter (\<lambda>r. j_status r = st \<and> j_type r = ty) rows)"

definition countJobsByStatusStmt :: "JobStatus \<Rightarrow> PersistedJob list \<Rightarrow> nat" where
  "countJobsByStatusStmt st rows = length (filter (\<lambda>r. j_status r = st) rows)"

definition countJobsByTypeStmt :: "string \<Rightarrow> PersistedJob list \<Rightarrow> nat" where
  "countJobsByTypeStmt ty rows = length (filter (\<lambda>r. j_type r = ty) rows)"

definition getJobByIdStmt :: "int \<Rightarrow> PersistedJob list \<Rightarrow> PersistedJob option" where
  "getJobByIdStmt i rows = find (\<lambda>r. j_id r = i) rows"

definition getScheduledJobByIdStmt ::
  "int \<Rightarrow> PersistedScheduledJob list \<Rightarrow> PersistedScheduledJob option" where
  "getScheduledJobByIdStmt i rows = find (\<lambda>r. sj_id r = i) rows"

definition getScheduledJobByTypeStmt ::
  "string \<Rightarrow> PersistedScheduledJob list \<Rightarrow> PersistedScheduledJob option" where
  "getScheduledJobByTypeStmt ty rows = find (\<lambda>r. sj_type r = ty) rows"

definition getScheduledJobsStmt :: "PersistedScheduledJob list \<Rightarrow> PersistedScheduledJob list" where
  "getScheduledJobsStmt rows = sort_key sj_createdAt rows"

text \<open>
  \<open>INSERT INTO plainjob_jobs (type, data, created_at)\<close>: \<open>status\<close> takes its default 0
  (\<open>Pending\<close>), \<open>failed_at\<close> and \<open>error\<close> are NULL. The bound \<open>data\<close> is a string or no
  value; the column is \<open>NOT NULL\<close>, so no value makes the statement fail and insert nothing.
\<close>

definition insertJobStmt :: "string \<Rightarrow> string option \<Rightarrow> int \<Rightarrow> Store \<Rightarrow> error + int \<times> Store" where
  "insertJobStmt ty dat created s =
     (case dat of
        None \<Rightarrow> Inl (SqliteError ''SQLITE_CONSTRAINT_NOTNULL'')
      | Some d \<Rightarrow>
          (let rowid = next_rowid (jobs_seq s) (map j_id (jobs s))
           in Inr (rowid,
                s\<lparr>jobs := jobs s @
                     [\<lparr>j_id = rowid, j_type = ty, j_data = d, j_status = Pending,
                       j_createdAt = created, j_failedAt = None, j_error = None\<rparr>],
                  jobs_seq := rowid\<rparr>)))"

text \<open>
  \<open>INSERT INTO plainjob_scheduled_jobs (type, cron_expression, next_run, created_at)\<close>:
  \<open>status\<close> takes its default 0 (\<open>Idle\<close>); the column \<open>type\<close> is \<open>UNIQUE\<close>.
\<close>

definition insertScheduledJobStmt ::
  "string \<Rightarrow> string \<Rightarrow> int \<Rightarrow> int \<Rightarrow> Store \<Rightarrow> error + int \<times> Store" where
  "insertScheduledJobStmt ty cron nextRun created s =
     (if ty \<in> set (map sj_type (scheduled_jobs s))
      then Inl (SqliteError ''SQLITE_CONSTRAINT_UNIQUE'')
      else
        (let rowid = next_rowid (scheduled_jobs_seq s) (map sj_id (scheduled_jobs s))
         in Inr (rowid,
              s\<lparr>scheduled_jobs := scheduled_jobs s @
                   [\<lparr>sj_id = rowid, sj_type = ty, sj_status = ScheduledIdle,
                     sj_createdAt = created, sj_cronExpression = cron, sj_nextRun = nextRun\<rparr>],
                scheduled_jobs_seq := rowid\<rparr>)))"

definition updateScheduledJobCronExpressionStmt ::
  "string \<Rightarrow> int \<Rightarrow> PersistedScheduledJob list \<Rightarrow> PersistedScheduledJob list" where
  "updateScheduledJobCronExpressionStmt cron i rows =
     sql_update (\<lambda>r. sj_id r = i) (\<lambda>r. r\<lparr>sj_cronExpression := cron\<rparr>) rows"

definition requeueTimedOutJobsStmt :: "int \<Rightarrow> PersistedJob list \<Rightarrow> PersistedJob list" where
  "requeueTimedOutJobsStmt threshold rows =
     sql_update (\<lambda>r. j_status r = Processing \<and> j_createdAt r < threshold)
       (\<lambda>r. r\<lparr>j_status := Pending\<rparr>) rows"

text \<open>
  \<open>UPDATE plainjob_jobs SET status = Processing WHERE id = (SELECT id ... LIMIT 1)\<close>:
  when the subquery has no row its value is NULL and no row is updated.
\<close>

definition getAndMarkJobAsProcessingStmt :: "string \<Rightarrow> PersistedJob list \<Rightarrow> PersistedJob list" where
  "getAndMarkJobAsProcessingStmt ty rows =
     (case sql_select_order_limit1 (\<lambda>r. j_status r = Pending \<and> j_type r = ty) j_createdAt rows of
        None \<Rightarrow> rows
      | Some c \<Rightarrow> sql_update (\<lambda>r. j_id r = j_id c) (\<lambda>r. r\<lparr>j_status := Processing\<rparr>) rows)"

definition getUpdatedJobStmt :: "string \<Rightarrow> PersistedJob list \<Rightarrow> PersistedJob option" where
  "getUpdatedJobStmt ty rows =
     sql_select_order_limit1 (\<lambda>r. j_status r = Processing \<and> j_type r = ty) j_createdAt rows"

text \<open>
  \<open>SELECT ... WHERE status = Idle AND next_run <= @now ORDER BY next_run LIMIT 1\<close>:
  SQLite reads the \<open>Idle\<close> rows from the index on \<open>(status, type, next_run)\<close>, that is
  in the order of their \<open>type\<close> (a \<open>TEXT\<close> column, compared byte by byte), and sorts
  them by \<open>next_run\<close>; among rows with equal \<open>next_run\<close> the one with the smallest
  \<open>type\<close> comes first.
\<close>

definition getNextScheduledJobStmt ::
  "int \<Rightarrow> PersistedScheduledJob list \<Rightarrow> PersistedScheduledJob option" where
  "getNextScheduledJobStmt now rows =
     sql_first (sort_key sj_nextRun (sort_key sj_type
       (filter (\<lambda>r. sj_status r = ScheduledIdle \<and> sj_nextRun r \<le> now) rows)))"

definition updateJobStatusStmt :: "JobStatus \<Rightarrow> int \<Rightarrow> PersistedJob list \<Rightarrow> PersistedJob list" where
  "updateJobStatusStmt st i rows = sql_update (\<lambda>r. j_id r = i) (\<lambda>r. r\<lparr>j_status := st\<rparr>) rows"

definition updateScheduledJobStatusStmt ::
  "ScheduledJobStatus \<Rightarrow> int \<Rightarrow> int \<Rightarrow> PersistedScheduledJob list \<Rightarrow> PersistedScheduledJob list" where
  "updateScheduledJobStatusStmt st nextRun i rows =
     sql_update (\<lambda>r. sj_id r = i) (\<lambda>r. r\<lparr>sj_status := st, sj_nextRun := nextRun\<rparr>) rows"

definition failJobStmt :: "int \<Rightarrow> string \<Rightarrow> int \<Rightarrow> PersistedJob list \<Rightarrow> PersistedJob list" where
  "failJobStmt failedAt err i rows =
     sql_update (\<lambda>r. j_id r = i)
       (\<lambda>r. r\<lparr>j_status := Failed, j_failedAt := Some failedAt, j_error := Some err\<rparr>) rows"

section \<open>The queue operations (defineQueue in src/queue.ts)\<close>

text \<open>
  The queue is configured with a serializer; the payload type \<open>'d\<close> is left open. A
  serializer yields a string or no value (\<open>JSON.stringify\<close> yields \<open>undefined\<close> for
  \<open>undefined\<close>, functions and symbols). The cron parser is an external library: it is a
  parameter \<open>parseExpression\<close> that returns \<open>Inl msg\<close> where the library throws an error
  with message \<open>msg\<close>.

  A transaction runs its body on the store; when the body throws, the store is rolled
  back to what it was and the error is passed on.
\<close>

definition transaction :: "(Store \<Rightarrow> error + 'a \<times> Store) \<Rightarrow> Store \<Rightarrow> (error + 'a) \<times> Store" where
  "transaction body s = (case body s of Inl e \<Rightarrow> (Inl e, s) | Inr (v, s') \<Rightarrow> (Inr v, s'))"

definition add :: "('d \<Rightarrow> string option) \<Rightarrow> int \<Rightarrow> string \<Rightarrow> 'd \<Rightarrow> Store \<Rightarrow> (error + int) \<times> Store" where
  "add serializer now ty d s =
     (let serializedData = serializer d
      in case insertJobStmt ty serializedData now s of
           Inl e \<Rightarrow> (Inl e, s)
         | Inr (rowid, s') \<Rightarrow> (Inr rowid, s'))"

fun insertManyJobs ::
  "(string \<times> string option \<times> int) list \<Rightarrow> int list \<Rightarrow> Store \<Rightarrow> error + int list \<times> Store" where
  "insertManyJobs [] ids s = Inr (ids, s)"
| "insertManyJobs ((ty, dat, created) # js) ids s =
     (case insertJobStmt ty dat created s of
        Inl e \<Rightarrow> Inl e
      | Inr (rowid, s') \<Rightarrow> insertManyJobs js (ids @ [rowid]) s')"

definition addMany ::
  "('d \<Rightarrow> string option) \<Rightarrow> int \<Rightarrow> string \<Rightarrow> 'd list \<Rightarrow> Store \<Rightarrow> (error + int list) \<times> Store" where
  "addMany serializer now ty dataList s =
     (let js = map (\<lambda>d. (ty, serializer d, now)) dataList
      in transaction (insertManyJobs js []) s)"

definition schedule ::
  "(string \<Rightarrow> string + unit) \<Rightarrow> int \<Rightarrow> string \<Rightarrow> string \<Rightarrow> Store \<Rightarrow> (error + int) \<times> Store" where
  "schedule parseExpression now ty cron s =
     (case parseExpression cron of
        Inl msg \<Rightarrow> (Inl (Error (''invalid cron expression provided: '' @ cron @ '' '' @ msg)), s)
      | Inr _ \<Rightarrow>
          (case getScheduledJobByTypeStmt ty (scheduled_jobs s) of
             Some found \<Rightarrow>
               (Inr (sj_id found),
                s\<lparr>scheduled_jobs :=
                    updateScheduledJobCronExpressionStmt cron (sj_id found) (scheduled_jobs s)\<rparr>)
           | None \<Rightarrow>
               (case insertScheduledJobStmt ty cron 0 now s of
                  Inl e \<Rightarrow> (Inl e, s)
                | Inr (rowid, s') \<Rightarrow> (Inr rowid, s'))))"

text \<open>
  \<open>countJobs(opts?: { type?: string; status?: JobStatus })\<close>. The source tests
  \<open>opts?.type\<close> for truthiness (the empty string is falsy) and \<open>opts?.status\<close> for
  being defined.
\<close>

record CountOpts =
  opt_type :: "string option"
  opt_status :: "JobStatus option"

definition truthy :: "string option \<Rightarrow> bool" where
  "truthy t = (case t of None \<Rightarrow> False | Some x \<Rightarrow> x \<noteq> [])"

definition countJobs :: "CountOpts option \<Rightarrow> Store \<Rightarrow> nat" where
  "countJobs opts s =
     (let ty = (case opts of None \<Rightarrow> None | Some p \<Rightarrow> opt_type p);
          st = (case opts of None \<Rightarrow> None | Some p \<Rightarrow> opt_status p)
      in if truthy ty \<and> st \<noteq> None then countJobsByTypeAndStatusStmt (the st) (the ty) (jobs s)
         else if st \<noteq> None \<and> \<not> truthy ty then countJobsByStatusStmt (the st) (jobs s)
         else if truthy ty \<and> st = None then countJobsByTypeStmt (the ty) (jobs s)
         else countJobsStmt (jobs s))"

definition getJobById :: "int \<Rightarrow> Store \<Rightarrow> PersistedJob option" where
  "getJobById i s = getJobByIdStmt i (jobs s)"

definition getScheduledJobs :: "Store \<Rightarrow> PersistedScheduledJob list" where
  "getScheduledJobs s = getScheduledJobsStmt (scheduled_jobs s)"

definition getScheduledJobById :: "int \<Rightarrow> Store \<Rightarrow> PersistedScheduledJob option" where
  "getScheduledJobById i s = getScheduledJobByIdStmt i (scheduled_jobs s)"

text \<open>
  The maintenance primitives log the number of rows they changed (\<open>result.changes\<close>) and
  pass it to the configured callback; here that number is the first component of the
  result.
\<close>

definition requeueTimedOutJobs :: "int \<Rightarrow> int \<Rightarrow> Store \<Rightarrow> nat \<times> Store" where
  "requeueTimedOutJobs now timeout s =
     (let threshold = now - timeout
      in (sql_changes (\<lambda>r. j_status r = Processing \<and> j_createdAt r < threshold) (jobs s),
          s\<lparr>jobs := requeueTimedOutJobsStmt threshold (jobs s)\<rparr>))"

definition removeDoneJobs :: "int \<Rightarrow> int \<Rightarrow> Store \<Rightarrow> nat \<times> Store" where
  "removeDoneJobs now olderThan s =
     (let threshold = now - olderThan
      in (sql_changes (removeDoneJobsStmt threshold) (jobs s),
          s\<lparr>jobs := sql_delete (removeDoneJobsStmt threshold) (jobs s)\<rparr>))"

definition removeFailedJobs :: "int \<Rightarrow> int \<Rightarrow> Store \<Rightarrow> nat \<times> Store" where
  "removeFailedJobs now olderThan s =
     (let threshold = now - olderThan
      in (sql_changes (removeFailedJobsStmt threshold) (jobs s),
          s\<lparr>jobs := sql_delete (removeFailedJobsStmt threshold) (jobs s)\<rparr>))"

definition getAndMarkJobAsProcessing :: "string \<Rightarrow> Store \<Rightarrow> PersistedJob option \<times> Store" where
  "getAndMarkJobAsProcessing ty s =
     (let rows = getAndMarkJobAsProcessingStmt ty (jobs s)
      in (getUpdatedJobStmt ty rows, s\<lparr>jobs := rows\<rparr>))"

definition getAndMarkScheduledJobAsProcessing ::
  "int \<Rightarrow> Store \<Rightarrow> PersistedScheduledJob option \<times> Store" where
  "getAndMarkScheduledJobAsProcessing now s =
     (case getNextScheduledJobStmt now (scheduled_jobs s) of
        Some job \<Rightarrow>
          (Some (job\<lparr>sj_status := ScheduledProcessing\<rparr>),
           s\<lparr>scheduled_jobs :=
               updateScheduledJobStatusStmt ScheduledProcessing (sj_nextRun job) (sj_id job)
                 (scheduled_jobs s)\<rparr>)
      | None \<Rightarrow> (None, s))"

definition markJobAsDone :: "int \<Rightarrow> Store \<Rightarrow> Store" where
  "markJobAsDone i s = s\<lparr>jobs := updateJobStatusStmt Done i (jobs s)\<rparr>"

definition markJobAsFailed :: "int \<Rightarrow> int \<Rightarrow> string \<Rightarrow> Store \<Rightarrow> Store" where
  "markJobAsFailed now i err s = s\<lparr>jobs := failJobStmt now err i (jobs s)\<rparr>"

definition markScheduledJobAsIdle :: "int \<Rightarrow> int \<Rightarrow> Store \<Rightarrow> Store" where
  "markScheduledJobAsIdle i nextRun s =
     s\<lparr>scheduled_jobs := updateScheduledJobStatusStmt ScheduledIdle nextRun i (scheduled_jobs s)\<rparr>"

section \<open>Sequences of operations\<close>

text \<open>
  A call of the queue interface, with the clock value it reads. \<open>step\<close> performs one call
  and keeps the store it leaves; \<open>run\<close> performs a list of calls from left to right.
\<close>

datatype 'd call =
    Add int string 'd
  | AddMany int string "'d list"
  | Schedule int string string
  | GetAndMarkJobAsProcessing string
  | GetAndMarkScheduledJobAsProcessing int
  | MarkJobAsDone int
  | MarkJobAsFailed int int string
  | MarkScheduledJobAsIdle int int
  | RequeueTimedOutJobs int int
  | RemoveDoneJobs int int
  | RemoveFailedJobs int int

fun step :: "('d \<Rightarrow> string option) \<Rightarrow> (string \<Rightarrow> string + unit) \<Rightarrow> 'd call \<Rightarrow> Store \<Rightarrow> Store" where
  "step ser parse (Add now ty d) s = snd (add ser now ty d s)"
| "step ser parse (AddMany now ty ds) s = snd (addMany ser now ty ds s)"
| "step ser parse (Schedule now ty cron) s = snd (schedule parse now ty cron s)"
| "step ser parse (GetAndMarkJobAsProcessing ty) s = snd (getAndMarkJobAsProcessing ty s)"
| "step ser parse (GetAndMarkScheduledJobAsProcessing now) s =
     snd (getAndMarkScheduledJobAsProcessing now s)"
| "step ser parse (MarkJobAsDone i) s = markJobAsDone i s"
| "step ser parse (MarkJobAsFailed now i err) s = markJobAsFailed now i err s"
| "step ser parse (MarkScheduledJobAsIdle i nextRun) s = markScheduledJobAsIdle i nextRun s"
| "step ser parse (RequeueTimedOutJobs now timeout) s = snd (requeueTimedOutJobs now timeout s)"
| "step ser parse (RemoveDoneJobs now olderThan) s = snd (removeDoneJobs now olderThan s)"
| "step ser parse (RemoveFailedJobs now olderThan) s = snd (removeFailedJobs now olderThan s)"

definition run :: "('d \<Rightarrow> string option) \<Rightarrow> (string \<Rightarrow> string + unit) \<Rightarrow> 'd call list \<Rightarrow> Store \<Rightarrow> Store" where
  "run ser parse cs s = fold (step ser parse) cs s"

section \<open>The invariant on failedAt and error\<close>

text \<open>
  \<open>failed_fields_as_specified\<close> is the invariant in the words of the specification:
  \<open>failedAt\<close> and \<open>error\<close> are both set iff the status is \<open>Failed\<close>, and both are unset
  for every other status. \<open>failed_fields_as_coded\<close> is what the statements of the source
  maintain: both are set on a \<open>Failed\<close> job, both are unset on a \<open>Pending\<close> or
  \<open>Processing\<close> job, and one is set iff the other is (a \<open>Done\<close> job may carry them).
\<close>

definition failed_fields_as_specified :: "PersistedJob \<Rightarrow> bool" where
  "failed_fields_as_specified r =
     (((j_failedAt r \<noteq> None \<and> j_error r \<noteq> None) \<longleftrightarrow> j_status r = Failed)
      \<and> (j_status r \<noteq> Failed \<longrightarrow> j_failedAt r = None \<and> j_error r = None))"

definition failed_fields_as_coded :: "PersistedJob \<Rightarrow> bool" where
  "failed_fields_as_coded r =
     ((j_status r = Failed \<longrightarrow> j_failedAt r \<noteq> None \<and> j_error r \<noteq> None)
      \<and> (j_status r = Pending \<or> j_status r = Processing
            \<longrightarrow> j_failedAt r = None \<and> j_error r = None)
      \<and> (j_failedAt r = None \<longleftrightarrow> j_error r = None))"

section \<open>Example stores and parameters\<close>

text \<open>
  A store with two \<open>Done\<close> jobs created just before and just after the instant 80, two
  \<open>Failed\<close> jobs that failed just before and at that instant, and a \<open>Processing\<close> job.
\<close>

definition retention_store :: Store where
  "retention_store =
     \<lparr>jobs =
        [\<lparr>j_id = 1, j_type = ''t'', j_data = ''a'', j_status = Done, j_createdAt = 79,
          j_failedAt = None, j_error = None\<rparr>,
         \<lparr>j_id = 2, j_type = ''t'', j_data = ''b'', j_status = Done, j_createdAt = 81,
          j_failedAt = None, j_error = None\<rparr>,
         \<lparr>j_id = 3, j_type = ''t'', j_data = ''c'', j_status = Failed, j_createdAt = 10,
          j_failedAt = Some 79, j_error = Some ''boom''\<rparr>,
         \<lparr>j_id = 4, j_type = ''t'', j_data = ''d'', j_status = Failed, j_createdAt = 10,
          j_failedAt = Some 80, j_error = Some ''boom''\<rparr>,
         \<lparr>j_id = 5, j_type = ''t'', j_data = ''e'', j_status = Processing, j_createdAt = 10,
          j_failedAt = None, j_error = None\<rparr>],
      jobs_seq = 5, scheduled_jobs = [], scheduled_jobs_seq = 0\<rparr>"

text \<open>
  A store with a \<open>Processing\<close> job of type \<open>t\<close> created at 10, a younger one created at
  95, a \<open>Pending\<close> job of the same type created at 5, and a \<open>Done\<close> job of another type.
\<close>

definition requeue_store :: Store where
  "requeue_store =
     \<lparr>jobs =
        [\<lparr>j_id = 1, j_type = ''t'', j_data = ''a'', j_status = Processing, j_createdAt = 10,
          j_failedAt = None, j_error = None\<rparr>,
         \<lparr>j_id = 2, j_type = ''t'', j_data = ''b'', j_status = Processing, j_createdAt = 95,
          j_failedAt = None, j_error = None\<rparr>,
         \<lparr>j_id = 3, j_type = ''t'', j_data = ''c'', j_status = Pending, j_createdAt = 5,
          j_failedAt = None, j_error = None\<rparr>,
         \<lparr>j_id = 4, j_type = ''u'', j_data = ''d'', j_status = Done, j_createdAt = 10,
          j_failedAt = None, j_error = None\<rparr>],
      jobs_seq = 4, scheduled_jobs = [], scheduled_jobs_seq = 0\<rparr>"

text \<open>
  A sample value for the parser parameter, to instantiate the theorems with. It is not
  a model of the cron-parser library: it accepts the expressions that the test suite
  schedules and rejects every other string, with a message of its own.
\<close>

definition sample_parseExpression :: "string \<Rightarrow> string + unit" where
  "sample_parseExpression c =
     (if c \<in> set [''* * * * *'', ''* * * * * *'', ''0 0 * * *'', ''0 12 * * MON-FRI'',
                   ''0 * * * *'', ''*/30 * * * *'']
      then Inr () else Inl ''rejected'')"

text \<open>
  The default serializer \<open>JSON.stringify\<close> on a few JavaScript values: it yields no
  value (\<open>undefined\<close>) for \<open>undefined\<close>.
\<close>

datatype js_value = JsUndefined | JsNull | JsBoolean bool

definition JSON_stringify :: "js_value \<Rightarrow> string option" where
  "JSON_stringify v =
     (case v of
        JsUndefined \<Rightarrow> None
      | JsNull \<Rightarrow> Some ''null''
      | JsBoolean b \<Rightarrow> Some (if b then ''true'' else ''false''))"

section \<open>Facts about the SQL building blocks\<close>

lemma sql_first_sort_key_None: "sql_first (sort_key key xs) = None \<longleftrightarrow> xs = []"
  by (cases xs) (auto simp: sql_first_def split: list.splits dest: arg_cong[where f=length])

lemma sql_first_sort_key_Some:
  assumes "sql_first (sort_key key xs) = Some r"
  shows "r \<in> set xs \<and> (\<forall>x\<in>set xs. key r \<le> key x)"
proof -
  from assms obtain ys where ys: "sort_key key xs = r # ys"
    by (auto simp: sql_first_def split: list.splits)
  have "r \<in> set (sort_key key xs)" using ys by simp
  then have 1: "r \<in> set xs" by simp
  have "sorted (map key (sort_key key xs))" by simp
  then have "\<forall>x\<in>set (r # ys). key r \<le> key x" unfolding ys by auto
  then have "\<forall>x\<in>set (sort_key key xs). key r \<le> key x" unfolding ys .
  then show ?thesis using 1 by simp
qed

lemma select_None:
  "sql_select_order_limit1 wh key rows = None \<longleftrightarrow> (\<forall>r\<in>set rows. \<not> wh r)"
  by (simp add: sql_select_order_limit1_def sql_first_sort_key_None filter_empty_conv)

lemma select_Some:
  "sql_select_order_limit1 wh key rows = Some r \<Longrightarrow>
     r \<in> set rows \<and> wh r \<and> (\<forall>x\<in>set rows. wh x \<longrightarrow> key r \<le> key x)"
  by (auto simp: sql_select_order_limit1_def dest!: sql_first_sort_key_Some)

lemma foldr_max_ge: "(z::int) \<le> foldr max xs z \<and> (\<forall>x\<in>set xs. x \<le> foldr max xs z)"
  by (induction xs) auto

lemma next_rowid_fresh: "seq < next_rowid seq ids \<and> (\<forall>x\<in>set ids. x < next_rowid seq ids)"
  using foldr_max_ge[of seq ids] by (auto simp: next_rowid_def)

lemma next_rowid_not_in: "next_rowid seq ids \<notin> set ids"
  using next_rowid_fresh[of seq ids] by auto

lemma foldr_max_absorb: "\<forall>x\<in>set xs. x \<le> y \<Longrightarrow> foldr max xs y = (y::int)"
  by (induction xs) auto

lemma foldr_max_succ: "foldr max xs (foldr max xs z + 1) = foldr max xs (z::int) + 1"
  using foldr_max_ge[of z xs] by (intro foldr_max_absorb) auto

lemma find_append_cases:
  "find P (xs @ ys) = (case find P xs of None \<Rightarrow> find P ys | Some x \<Rightarrow> Some x)"
  by (induction xs) auto

lemma distinct_map_eq:
  "distinct (map f xs) \<Longrightarrow> x \<in> set xs \<Longrightarrow> y \<in> set xs \<Longrightarrow> f x = f y \<Longrightarrow> x = y"
  by (auto simp: distinct_map dest: inj_onD)

lemma map_j_id_sql_update:
  "(\<And>r. j_id (upd r) = j_id r) \<Longrightarrow> map j_id (sql_update wh upd rows) = map j_id rows"
  by (simp add: sql_update_def)

lemma map_j_id_claim: "map j_id (getAndMarkJobAsProcessingStmt ty rows) = map j_id rows"
  by (simp add: getAndMarkJobAsProcessingStmt_def map_j_id_sql_update split: option.splits)

lemma list_all_sql_update:
  assumes "list_all P rows" and "\<And>r. r \<in> set rows \<Longrightarrow> P r \<Longrightarrow> wh r \<Longrightarrow> P (upd r)"
  shows "list_all P (sql_update wh upd rows)"
  using assms by (auto simp: sql_update_def list_all_iff)

lemma find_map_keeps:
  "(\<And>r. f (g r) = f r) \<Longrightarrow> find (\<lambda>r. f r = i) (map g xs) = map_option g (find (\<lambda>r. f r = i) xs)"
  by (induction xs) auto

lemma j_status_update_same: "j_status r = x \<Longrightarrow> r\<lparr>j_status := x\<rparr> = r"
  by (cases r) simp

lemma find_distinct_mem:
  "distinct (map f xs) \<Longrightarrow> x \<in> set xs \<Longrightarrow> find (\<lambda>r. f r = f x) xs = Some x"
  by (induction xs) (auto simp: image_iff)

lemma select_strictly_oldest:
  assumes "c \<in> set rows" "wh c"
      and "\<forall>r\<in>set rows. wh r \<and> r \<noteq> c \<longrightarrow> key c < key r"
  shows "sql_select_order_limit1 wh key rows = Some c"
proof -
  have "sql_select_order_limit1 wh key rows \<noteq> None"
    unfolding select_None using assms(1,2) by blast
  then obtain h where h: "sql_select_order_limit1 wh key rows = Some h" by auto
  from select_Some[OF h] have "h \<in> set rows" "wh h" "key h \<le> key c"
    using assms(1,2) by auto
  then have "h = c" using assms(3) by force
  then show ?thesis using h by simp
qed

lemma length_filter_distinct_key:
  "distinct (map f xs) \<Longrightarrow> x \<in> set xs \<Longrightarrow> length (filter (\<lambda>r. f r = f x) xs) = 1"
proof (induction xs)
  case Nil
  then show ?case by simp
next
  case (Cons y ys)
  show ?case
  proof (cases "f y = f x")
    case True
    then have "\<forall>r\<in>set ys. f r \<noteq> f x" using Cons.prems(1) by (auto simp: image_iff)
    then have "filter (\<lambda>r. f r = f x) ys = []" by (simp add: filter_empty_conv)
    then show ?thesis using True by simp
  next
    case False
    then have "x \<in> set ys" using Cons.prems(2) by auto
    then show ?thesis using Cons False by simp
  qed
qed

lemma find_filter_distinct:
  assumes "distinct (map f xs)"
  shows "find (\<lambda>r. f r = i) (filter Q xs)
       = (case find (\<lambda>r. f r = i) xs of None \<Rightarrow> None | Some j \<Rightarrow> if Q j then Some j else None)"
  using assms
proof (induction xs)
  case Nil
  then show ?case by simp
next
  case (Cons x xs)
  show ?case
  proof (cases "f x = i")
    case True
    then have "\<forall>r\<in>set xs. f r \<noteq> i" using Cons.prems by (auto simp: image_iff)
    then have "find (\<lambda>r. f r = i) (filter Q xs) = None" by (simp add: find_None_iff)
    then show ?thesis using True by simp
  next
    case False
    then show ?thesis using Cons by simp
  qed
qed

lemma getJobById_sql_delete:
  assumes "distinct (map j_id rows)"
  shows "getJobByIdStmt i (sql_delete wh rows)
       = (case getJobByIdStmt i rows of None \<Rightarrow> None | Some j \<Rightarrow> if wh j then None else Some j)"
  by (simp add: getJobByIdStmt_def sql_delete_def find_filter_distinct[OF assms]
           split: option.splits)

lemmas eval_defs = run_def add_def insertJobStmt_def next_rowid_def empty_store_def
  getAndMarkJobAsProcessing_def getAndMarkJobAsProcessingStmt_def getUpdatedJobStmt_def
  sql_select_order_limit1_def sql_first_def sql_update_def Let_def

section \<open>Claiming jobs: getAndMarkJobAsProcessing\<close>

text \<open>
  C1. Jobs A, B, C of one type are enqueued in that order with strictly increasing
  \<open>createdAt\<close>, and \<open>getAndMarkJobAsProcessing\<close> is called three times with nothing in
  between. The claim is that the calls return A, then B, then C. The source does not:
  \<open>getUpdatedJobStmt\<close> re-reads the oldest \<open>Processing\<close> row of the type instead of the
  row that the update just changed, so from the empty store the three calls mark A, B
  and C as \<open>Processing\<close> but each of them returns A.
\<close>

theorem getAndMarkJobAsProcessing_returns_first_job_thrice:
  assumes "ta < tb" and "tb < tc"
  shows "let s3 = run Some parse [Add ta t a, Add tb t b, Add tc t c] empty_store;
             (r1, s4) = getAndMarkJobAsProcessing t s3;
             (r2, s5) = getAndMarkJobAsProcessing t s4;
             (r3, s6) = getAndMarkJobAsProcessing t s5
         in r1 = Some \<lparr>j_id = 1, j_type = t, j_data = a, j_status = Processing,
                        j_createdAt = ta, j_failedAt = None, j_error = None\<rparr>
            \<and> r2 = r1 \<and> r3 = r1
            \<and> map j_status (jobs s6) = [Processing, Processing, Processing]"
  using assms by (simp add: eval_defs)

theorem getAndMarkJobAsProcessing_returns_first_job_thrice_witness:
  "(1::int) < 2 \<and> (2::int) < 3 \<and>
   (let s3 = run Some (\<lambda>c. Inr ()) [Add 1 ''t'' ''a'', Add 2 ''t'' ''b'', Add 3 ''t'' ''c'']
               empty_store;
        (r1, s4) = getAndMarkJobAsProcessing ''t'' s3;
        (r2, s5) = getAndMarkJobAsProcessing ''t'' s4;
        (r3, s6) = getAndMarkJobAsProcessing ''t'' s5
    in map_option j_id r1 = Some 1 \<and> map_option j_id r2 = Some 1
       \<and> map_option j_id r3 = Some 1)"
  using getAndMarkJobAsProcessing_returns_first_job_thrice
          [of 1 2 3 "\<lambda>c. Inr ()" "''t''" "''a''" "''b''" "''c''"]
  by (simp add: Let_def split: prod.splits)

text \<open>
  C2. The store holds no \<open>Pending\<close> job of type \<open>t\<close>. The claim is that
  \<open>getAndMarkJobAsProcessing t\<close> returns none and changes no row. The source changes no
  row, but it returns none only when no \<open>Processing\<close> job of type \<open>t\<close> exists either:
  otherwise it returns the oldest \<open>Processing\<close> job of that type.
\<close>

theorem getAndMarkJobAsProcessing_without_pending:
  assumes "\<forall>r\<in>set (jobs s). \<not> (j_status r = Pending \<and> j_type r = t)"
  shows "snd (getAndMarkJobAsProcessing t s) = s
       \<and> (fst (getAndMarkJobAsProcessing t s) = None
            \<longleftrightarrow> (\<forall>r\<in>set (jobs s). \<not> (j_status r = Processing \<and> j_type r = t)))"
proof -
  have "sql_select_order_limit1 (\<lambda>r. j_status r = Pending \<and> j_type r = t) j_createdAt (jobs s)
          = None"
    using assms by (simp add: select_None)
  then have rows: "getAndMarkJobAsProcessingStmt t (jobs s) = jobs s"
    by (simp add: getAndMarkJobAsProcessingStmt_def)
  show ?thesis
    by (simp add: getAndMarkJobAsProcessing_def rows getUpdatedJobStmt_def select_None)
qed

theorem getAndMarkJobAsProcessing_without_pending_witness:
  "list_all (\<lambda>r. \<not> (j_status r = Pending \<and> j_type r = ''t''))
     (jobs (run Some (\<lambda>c. Inr ()) [Add 1 ''t'' ''a'', GetAndMarkJobAsProcessing ''t'']
              empty_store))
   \<and> map_option j_id (fst (getAndMarkJobAsProcessing ''t''
        (run Some (\<lambda>c. Inr ()) [Add 1 ''t'' ''a'', GetAndMarkJobAsProcessing ''t'']
           empty_store))) = Some 1
   \<and> snd (getAndMarkJobAsProcessing ''t''
        (run Some (\<lambda>c. Inr ()) [Add 1 ''t'' ''a'', GetAndMarkJobAsProcessing ''t'']
           empty_store))
      = run Some (\<lambda>c. Inr ()) [Add 1 ''t'' ''a'', GetAndMarkJobAsProcessing ''t''] empty_store"
  using getAndMarkJobAsProcessing_without_pending
          [of "run Some (\<lambda>c. Inr ()) [Add 1 ''t'' ''a'', GetAndMarkJobAsProcessing ''t'']
                 empty_store" "''t''"]
  by (simp add: eval_defs)

section \<open>Enqueueing: add and addMany\<close>

lemma insertJobStmt_Some:
  "insertJobStmt ty (Some d) created s
     = Inr (next_rowid (jobs_seq s) (map j_id (jobs s)),
            s\<lparr>jobs := jobs s @ [\<lparr>j_id = next_rowid (jobs_seq s) (map j_id (jobs s)), j_type = ty,
                  j_data = d, j_status = Pending, j_createdAt = created, j_failedAt = None,
                  j_error = None\<rparr>],
              jobs_seq := next_rowid (jobs_seq s) (map j_id (jobs s))\<rparr>)"
  by (simp add: insertJobStmt_def Let_def)

lemma next_rowid_after_insert:
  "next_rowid (next_rowid seq ids) (ids @ [next_rowid seq ids]) = next_rowid seq ids + 1"
  by (simp add: next_rowid_def foldr_max_succ)

lemma insertManyJobs_all:
  assumes "\<forall>j\<in>set js. fst (snd j) \<noteq> None"
  shows "\<exists>new s'. insertManyJobs js ids s = Inr (ids @ map j_id new, s')
           \<and> jobs s' = jobs s @ new
           \<and> scheduled_jobs s' = scheduled_jobs s
           \<and> length new = length js
           \<and> (\<forall>k<length js. new ! k =
                 \<lparr>j_id = next_rowid (jobs_seq s) (map j_id (jobs s)) + int k,
                  j_type = fst (js ! k), j_data = the (fst (snd (js ! k))), j_status = Pending,
                  j_createdAt = snd (snd (js ! k)), j_failedAt = None, j_error = None\<rparr>)"
  using assms
proof (induction js arbitrary: ids s)
  case Nil
  then show ?case by simp
next
  case (Cons j js)
  obtain ty dat created where j: "j = (ty, dat, created)" by (cases j) auto
  from Cons.prems j obtain d where dat: "dat = Some d" by auto
  let ?n = "next_rowid (jobs_seq s) (map j_id (jobs s))"
  let ?row = "\<lparr>j_id = ?n, j_type = ty, j_data = d, j_status = Pending, j_createdAt = created,
               j_failedAt = None, j_error = None\<rparr>"
  let ?s1 = "s\<lparr>jobs := jobs s @ [?row], jobs_seq := ?n\<rparr>"
  have ins: "insertJobStmt ty dat created s = Inr (?n, ?s1)"
    by (simp add: dat insertJobStmt_Some)
  have nxt: "next_rowid (jobs_seq ?s1) (map j_id (jobs ?s1)) = ?n + 1"
    by (simp add: next_rowid_after_insert)
  from Cons.prems have "\<forall>j\<in>set js. fst (snd j) \<noteq> None" by simp
  from Cons.IH[OF this, of "ids @ [?n]" ?s1] obtain new s' where
    run: "insertManyJobs js (ids @ [?n]) ?s1 = Inr ((ids @ [?n]) @ map j_id new, s')"
    and rows: "jobs s' = jobs ?s1 @ new"
    and sched: "scheduled_jobs s' = scheduled_jobs ?s1"
    and len: "length new = length js"
    and nth: "\<forall>k<length js. new ! k =
                 \<lparr>j_id = next_rowid (jobs_seq ?s1) (map j_id (jobs ?s1)) + int k,
                  j_type = fst (js ! k), j_data = the (fst (snd (js ! k))), j_status = Pending,
                  j_createdAt = snd (snd (js ! k)), j_failedAt = None, j_error = None\<rparr>"
    by blast
  have 1: "insertManyJobs (j # js) ids s = Inr (ids @ map j_id (?row # new), s')"
    using run by (simp add: j ins)
  have 2: "jobs s' = jobs s @ (?row # new)" using rows by simp
  have 3: "scheduled_jobs s' = scheduled_jobs s" using sched by simp
  have 4: "length (?row # new) = length (j # js)" using len by simp
  have 5: "(?row # new) ! k =
                 \<lparr>j_id = ?n + int k,
                  j_type = fst ((j # js) ! k), j_data = the (fst (snd ((j # js) ! k))),
                  j_status = Pending,
                  j_createdAt = snd (snd ((j # js) ! k)), j_failedAt = None, j_error = None\<rparr>"
    if "k < length (j # js)" for k
  proof (cases k)
    case 0
    then show ?thesis by (simp add: j dat)
  next
    case (Suc m)
    then have "m < length js" using that by simp
    then show ?thesis using nth Suc by (simp add: next_rowid_after_insert)
  qed
  show ?case using 1 2 3 4 5 by blast
qed

lemma insertManyJobs_fails:
  assumes "\<exists>j\<in>set js. fst (snd j) = None"
  shows "\<exists>e. insertManyJobs js ids s = Inl e"
  using assms
proof (induction js arbitrary: ids s)
  case Nil
  then show ?case by simp
next
  case (Cons j js)
  obtain ty dat created where j: "j = (ty, dat, created)" by (cases j) auto
  show ?case
  proof (cases dat)
    case None
    then show ?thesis by (simp add: j insertJobStmt_def)
  next
    case (Some d)
    then have "\<exists>j\<in>set js. fst (snd j) = None" using Cons.prems j by auto
    from Cons.IH[OF this] show ?thesis
      by (simp add: j Some insertJobStmt_Some)
  qed
qed


text \<open>
  C8. The claim is that for every list of payloads \<open>ds\<close>, \<open>addMany t ds\<close> inserts one new
  job per element and returns the new ids. The source does so only when the serializer
  yields a string for every element: the default serializer \<open>JSON.stringify\<close> yields no
  value for \<open>undefined\<close>, the insert of that element fails on the \<open>NOT NULL\<close> column
  \<open>data\<close>, the transaction is rolled back, and \<open>addMany\<close> throws with the store as it
  was. What holds: when the serializer yields a string for every element of \<open>ds\<close>,
  \<open>addMany t ds\<close> inserts one new job per element, each \<open>Pending\<close>, of type \<open>t\<close>, with
  the serializer's result for that element as its data, and returns the new ids in input
  order (the \<open>k\<close>-th id identifies the job made from the \<open>k\<close>-th element; the ids are fresh
  and the rows that were there stay as they are); otherwise it fails and inserts
  nothing. Either way the insertion is all or nothing.
\<close>

theorem addMany_all_or_nothing:
  "if \<forall>d\<in>set ds. ser d \<noteq> None
   then \<exists>ids s'. addMany ser now t ds s = (Inr ids, s')
          \<and> length ids = length ds
          \<and> length (jobs s') = length (jobs s) + length ds
          \<and> take (length (jobs s)) (jobs s') = jobs s
          \<and> distinct ids
          \<and> (\<forall>k<length ds.
                getJobById (ids ! k) s = None
                \<and> (\<exists>d. ser (ds ! k) = Some d
                      \<and> getJobById (ids ! k) s'
                          = Some \<lparr>j_id = ids ! k, j_type = t, j_data = d, j_status = Pending,
                                  j_createdAt = now, j_failedAt = None, j_error = None\<rparr>))
          \<and> (\<forall>i. i \<notin> set ids \<longrightarrow> getJobById i s' = getJobById i s)
   else \<exists>e. addMany ser now t ds s = (Inl e, s)"
proof (cases "\<forall>d\<in>set ds. ser d \<noteq> None")
  case False
  let ?js = "map (\<lambda>d. (t, ser d, now)) ds"
  from False have "\<exists>j\<in>set ?js. fst (snd j) = None" by auto
  from insertManyJobs_fails[OF this, of "[]" s] obtain e where
    "insertManyJobs ?js [] s = Inl e" by blast
  then have "addMany ser now t ds s = (Inl e, s)"
    by (simp add: addMany_def transaction_def)
  then show ?thesis using False by auto
next
  case True
  let ?js = "map (\<lambda>d. (t, ser d, now)) ds"
  let ?n = "next_rowid (jobs_seq s) (map j_id (jobs s))"
  from True have "\<forall>j\<in>set ?js. fst (snd j) \<noteq> None" by auto
  from insertManyJobs_all[OF this, of "[]" s] obtain new s' where
    run: "insertManyJobs ?js [] s = Inr (map j_id new, s')"
    and rows: "jobs s' = jobs s @ new"
    and len: "length new = length ds"
    and nth: "\<forall>k<length ds. new ! k =
                 \<lparr>j_id = ?n + int k, j_type = t, j_data = the (ser (ds ! k)),
                  j_status = Pending, j_createdAt = now, j_failedAt = None, j_error = None\<rparr>"
    by auto
  let ?ids = "map j_id new"
  have idk: "?ids ! k = ?n + int k" if "k < length ds" for k
    using that len nth by simp
  have 1: "addMany ser now t ds s = (Inr ?ids, s')"
    using run by (simp add: addMany_def transaction_def)
  have 2: "length ?ids = length ds" using len by simp
  have 3: "length (jobs s') = length (jobs s) + length ds" using rows len by simp
  have 4: "take (length (jobs s)) (jobs s') = jobs s" using rows by simp
  have 5: "distinct ?ids"
    unfolding distinct_conv_nth using idk 2 by auto
  have old: "find (\<lambda>r. j_id r = ?n + int k) (jobs s) = None" for k
  proof -
    have "\<forall>r\<in>set (jobs s). j_id r < ?n"
      using next_rowid_fresh[of "jobs_seq s" "map j_id (jobs s)"] by simp
    then have "\<forall>r\<in>set (jobs s). j_id r \<noteq> ?n + int k" by fastforce
    then show ?thesis by (simp add: find_None_iff)
  qed
  have 6: "getJobById (?ids ! k) s = None
           \<and> (\<exists>d. ser (ds ! k) = Some d
                 \<and> getJobById (?ids ! k) s'
                     = Some \<lparr>j_id = ?ids ! k, j_type = t, j_data = d, j_status = Pending,
                             j_createdAt = now, j_failedAt = None, j_error = None\<rparr>)"
    if k: "k < length ds" for k
  proof -
    from True k obtain d where d: "ser (ds ! k) = Some d" by (metis nth_mem not_Some_eq)
    have newk: "new ! k = \<lparr>j_id = ?n + int k, j_type = t, j_data = d, j_status = Pending,
                  j_createdAt = now, j_failedAt = None, j_error = None\<rparr>"
      using nth k d by simp
    have "find (\<lambda>r. j_id r = ?n + int k) new = Some (new ! k)"
      unfolding find_Some_iff
    proof (intro exI[of _ k] conjI allI impI)
      show "k < length new" using k len by simp
      show "j_id (new ! k) = ?n + int k" using newk by simp
      show "new ! k = new ! k" ..
      fix m assume "m < k"
      then have "j_id (new ! m) = ?n + int m" using nth k by simp
      then show "j_id (new ! m) \<noteq> ?n + int k" using \<open>m < k\<close> by simp
    qed
    then have "getJobById (?n + int k) s' = Some (new ! k)"
      by (simp add: getJobById_def getJobByIdStmt_def rows find_append_cases old)
    moreover have "getJobById (?n + int k) s = None"
      by (simp add: getJobById_def getJobByIdStmt_def old)
    ultimately show ?thesis using d newk idk[OF k] by simp
  qed
  have 7: "getJobById i s' = getJobById i s" if "i \<notin> set ?ids" for i
  proof -
    from that have "find (\<lambda>r. j_id r = i) new = None"
      by (auto simp: find_None_iff)
    then show ?thesis
      by (simp add: getJobById_def getJobByIdStmt_def rows find_append_cases split: option.splits)
  qed
  show ?thesis using True 1 2 3 4 5 6 7 by simp
qed


theorem addMany_all_or_nothing_witness:
  "(case addMany Some 5 ''paint'' [''red'', ''green'', ''blue''] empty_store of
      (res, s') \<Rightarrow> res = Inr [1, 2, 3]
        \<and> map j_data (jobs s') = [''red'', ''green'', ''blue'']
        \<and> map j_status (jobs s') = [Pending, Pending, Pending])
   \<and> addMany (\<lambda>d. if d = ''green'' then None else Some d) 5 ''paint''
         [''red'', ''green'', ''blue''] empty_store
       = (Inl (SqliteError ''SQLITE_CONSTRAINT_NOTNULL''), empty_store)"
  using addMany_all_or_nothing[of "[''red'', ''green'', ''blue'']" Some 5 "''paint''" empty_store]
    addMany_all_or_nothing[of "[''red'', ''green'', ''blue'']"
      "\<lambda>d. if d = ''green'' then None else Some d" 5 "''paint''" empty_store]
  by (simp add: addMany_def transaction_def insertJobStmt_def next_rowid_def empty_store_def
        Let_def)


theorem addMany_undefined_payload_counterexample:
  "\<not> (\<exists>ids s'. addMany JSON_stringify 5 ''paint'' [JsBoolean True, JsUndefined] empty_store
                   = (Inr ids, s'))
   \<and> jobs (snd (addMany JSON_stringify 5 ''paint'' [JsBoolean True, JsUndefined] empty_store))
       = []"
  by (simp add: addMany_def transaction_def insertJobStmt_def next_rowid_def empty_store_def
        JSON_stringify_def Let_def)

section \<open>What a call does to the jobs table\<close>

lemma jobs_add:
  "jobs (snd (add ser now ty d s))
     = (case ser d of
          None \<Rightarrow> jobs s
        | Some x \<Rightarrow> jobs s @ [\<lparr>j_id = next_rowid (jobs_seq s) (map j_id (jobs s)), j_type = ty,
                      j_data = x, j_status = Pending, j_createdAt = now, j_failedAt = None,
                      j_error = None\<rparr>])"
  by (simp add: add_def insertJobStmt_def Let_def split: option.splits)

lemma jobs_addMany:
  "\<exists>new. jobs (snd (addMany ser now ty ds s)) = jobs s @ new
         \<and> (\<forall>k<length new. j_id (new ! k) = next_rowid (jobs_seq s) (map j_id (jobs s)) + int k
               \<and> j_status (new ! k) = Pending \<and> j_failedAt (new ! k) = None
               \<and> j_error (new ! k) = None)"
proof (cases "\<forall>d\<in>set ds. ser d \<noteq> None")
  case True
  then have "\<forall>j\<in>set (map (\<lambda>d. (ty, ser d, now)) ds). fst (snd j) \<noteq> None" by auto
  from insertManyJobs_all[OF this, of "[]" s] obtain new s' where
    "insertManyJobs (map (\<lambda>d. (ty, ser d, now)) ds) [] s = Inr (map j_id new, s')"
    "jobs s' = jobs s @ new" "length new = length ds"
    "\<forall>k<length ds. new ! k =
       \<lparr>j_id = next_rowid (jobs_seq s) (map j_id (jobs s)) + int k, j_type = ty,
        j_data = the (ser (ds ! k)), j_status = Pending, j_createdAt = now,
        j_failedAt = None, j_error = None\<rparr>"
    by auto
  then show ?thesis
    by (intro exI[of _ new]) (simp add: addMany_def transaction_def)
next
  case False
  then have "\<exists>j\<in>set (map (\<lambda>d. (ty, ser d, now)) ds). fst (snd j) = None" by auto
  from insertManyJobs_fails[OF this, of "[]" s] obtain e where
    "insertManyJobs (map (\<lambda>d. (ty, ser d, now)) ds) [] s = Inl e" by blast
  then show ?thesis
    by (intro exI[of _ "[]"]) (simp add: addMany_def transaction_def)
qed

lemma jobs_getAndMarkJobAsProcessing:
  "jobs (snd (getAndMarkJobAsProcessing ty s)) = getAndMarkJobAsProcessingStmt ty (jobs s)"
  by (simp add: getAndMarkJobAsProcessing_def Let_def)

lemma jobs_schedule: "jobs (snd (schedule parse now ty cron s)) = jobs s"
  by (simp add: schedule_def insertScheduledJobStmt_def Let_def split: sum.splits option.splits)

lemma jobs_getAndMarkScheduledJobAsProcessing:
  "jobs (snd (getAndMarkScheduledJobAsProcessing now s)) = jobs s"
  by (simp add: getAndMarkScheduledJobAsProcessing_def split: option.splits)

lemma fresh_ids_distinct:
  assumes "distinct (map j_id rows)"
      and "\<forall>k<length new. j_id (new ! k) = next_rowid seq (map j_id rows) + int k"
  shows "distinct (map j_id (rows @ new))"
proof -
  have "distinct (map j_id new)"
    unfolding distinct_conv_nth using assms(2) by auto
  moreover have "j_id x \<noteq> j_id y" if "x \<in> set rows" "y \<in> set new" for x y
  proof -
    from that(2) obtain k where "k < length new" "y = new ! k" by (auto simp: in_set_conv_nth)
    then have "next_rowid seq (map j_id rows) \<le> j_id y" using assms(2) by simp
    moreover have "j_id x < next_rowid seq (map j_id rows)"
      using next_rowid_fresh[of seq "map j_id rows"] that(1) by simp
    ultimately show ?thesis by simp
  qed
  ultimately show ?thesis using assms(1) by auto
qed

lemma step_distinct_ids:
  assumes "distinct (map j_id (jobs s))"
  shows "distinct (map j_id (jobs (step ser parse c s)))"
proof (cases c)
  case (Add now ty d)
  show ?thesis
  proof (cases "ser d")
    case None
    then show ?thesis using assms Add by (simp add: jobs_add)
  next
    case (Some x)
    then show ?thesis using assms Add next_rowid_not_in[of "jobs_seq s" "map j_id (jobs s)"]
      by (simp add: jobs_add)
  qed
next
  case (AddMany now ty ds)
  from jobs_addMany[of ser now ty ds s] obtain new where
    "jobs (snd (addMany ser now ty ds s)) = jobs s @ new"
    "\<forall>k<length new. j_id (new ! k) = next_rowid (jobs_seq s) (map j_id (jobs s)) + int k"
    by blast
  then show ?thesis using AddMany fresh_ids_distinct[OF assms, of new "jobs_seq s"] by simp
next
  case (Schedule now ty cron)
  then show ?thesis using assms by (simp add: jobs_schedule)
next
  case (GetAndMarkJobAsProcessing ty)
  then show ?thesis using assms by (simp add: jobs_getAndMarkJobAsProcessing map_j_id_claim)
next
  case (GetAndMarkScheduledJobAsProcessing now)
  then show ?thesis using assms by (simp add: jobs_getAndMarkScheduledJobAsProcessing)
next
  case (MarkJobAsDone i)
  then show ?thesis using assms
    by (simp add: markJobAsDone_def updateJobStatusStmt_def map_j_id_sql_update)
next
  case (MarkJobAsFailed now i err)
  then show ?thesis using assms
    by (simp add: markJobAsFailed_def failJobStmt_def map_j_id_sql_update)
next
  case (MarkScheduledJobAsIdle i nextRun)
  then show ?thesis using assms by (simp add: markScheduledJobAsIdle_def)
next
  case (RequeueTimedOutJobs now timeout)
  then show ?thesis using assms
    by (simp add: requeueTimedOutJobs_def requeueTimedOutJobsStmt_def Let_def map_j_id_sql_update)
next
  case (RemoveDoneJobs now olderThan)
  then show ?thesis using assms
    by (simp add: removeDoneJobs_def Let_def sql_delete_def distinct_map_filter)
next
  case (RemoveFailedJobs now olderThan)
  then show ?thesis using assms
    by (simp add: removeFailedJobs_def Let_def sql_delete_def distinct_map_filter)
qed

lemma run_distinct_ids:
  "distinct (map j_id (jobs s)) \<Longrightarrow> distinct (map j_id (jobs (run ser parse cs s)))"
  unfolding run_def by (induction cs arbitrary: s) (auto simp: step_distinct_ids)

lemma step_jobs_shape:
  "(\<exists>new. jobs (step ser parse c s) = jobs s @ new)
   \<or> (\<exists>g. jobs (step ser parse c s) = map g (jobs s)
          \<and> (\<forall>r. j_id (g r) = j_id r \<and> j_type (g r) = j_type r \<and> j_data (g r) = j_data r
                 \<and> j_createdAt (g r) = j_createdAt r))
   \<or> (\<exists>Q now olderThan. (c = RemoveDoneJobs now olderThan \<or> c = RemoveFailedJobs now olderThan)
          \<and> jobs (step ser parse c s) = filter Q (jobs s))"
proof (cases c)
  case (Add now ty d)
  then have "\<exists>new. jobs (step ser parse c s) = jobs s @ new"
    by (cases "ser d") (simp_all add: jobs_add)
  then show ?thesis by blast
next
  case (AddMany now ty ds)
  then have "\<exists>new. jobs (step ser parse c s) = jobs s @ new"
    using jobs_addMany[of ser now ty ds s] by auto
  then show ?thesis by blast
next
  case (Schedule now ty cron)
  then have "jobs (step ser parse c s) = jobs s @ []" by (simp add: jobs_schedule)
  then show ?thesis by blast
next
  case (GetAndMarkJobAsProcessing ty)
  have "\<exists>g. getAndMarkJobAsProcessingStmt ty (jobs s) = map g (jobs s)
          \<and> (\<forall>r. j_id (g r) = j_id r \<and> j_type (g r) = j_type r \<and> j_data (g r) = j_data r
                 \<and> j_createdAt (g r) = j_createdAt r)"
  proof (cases "sql_select_order_limit1 (\<lambda>r. j_status r = Pending \<and> j_type r = ty)
                  j_createdAt (jobs s)")
    case None
    then show ?thesis
      by (intro exI[of _ "\<lambda>r. r"]) (simp add: getAndMarkJobAsProcessingStmt_def)
  next
    case (Some c')
    then show ?thesis
      by (intro exI[of _ "\<lambda>r. if j_id r = j_id c' then r\<lparr>j_status := Processing\<rparr> else r"])
         (simp add: getAndMarkJobAsProcessingStmt_def sql_update_def)
  qed
  then show ?thesis using GetAndMarkJobAsProcessing
    by (simp add: jobs_getAndMarkJobAsProcessing)
next
  case (GetAndMarkScheduledJobAsProcessing now)
  then have "jobs (step ser parse c s) = jobs s @ []"
    by (simp add: jobs_getAndMarkScheduledJobAsProcessing)
  then show ?thesis by blast
next
  case (MarkJobAsDone i)
  then have "jobs (step ser parse c s)
               = map (\<lambda>r. if j_id r = i then r\<lparr>j_status := Done\<rparr> else r) (jobs s)"
    by (simp add: markJobAsDone_def updateJobStatusStmt_def sql_update_def)
  then show ?thesis
    by (intro disjI2 disjI1 exI[of _ "\<lambda>r. if j_id r = i then r\<lparr>j_status := Done\<rparr> else r"])
       simp
next
  case (MarkJobAsFailed now i err)
  then have "jobs (step ser parse c s)
               = map (\<lambda>r. if j_id r = i
                           then r\<lparr>j_status := Failed, j_failedAt := Some now, j_error := Some err\<rparr>
                           else r) (jobs s)"
    by (simp add: markJobAsFailed_def failJobStmt_def sql_update_def)
  then show ?thesis
    by (intro disjI2 disjI1
          exI[of _ "\<lambda>r. if j_id r = i
                         then r\<lparr>j_status := Failed, j_failedAt := Some now, j_error := Some err\<rparr>
                         else r"])
       simp
next
  case (MarkScheduledJobAsIdle i nextRun)
  then have "jobs (step ser parse c s) = jobs s @ []" by (simp add: markScheduledJobAsIdle_def)
  then show ?thesis by blast
next
  case (RequeueTimedOutJobs now timeout)
  then have "jobs (step ser parse c s)
               = map (\<lambda>r. if j_status r = Processing \<and> j_createdAt r < now - timeout
                           then r\<lparr>j_status := Pending\<rparr> else r) (jobs s)"
    by (simp add: requeueTimedOutJobs_def requeueTimedOutJobsStmt_def sql_update_def Let_def)
  then show ?thesis
    by (intro disjI2 disjI1
          exI[of _ "\<lambda>r. if j_status r = Processing \<and> j_createdAt r < now - timeout
                         then r\<lparr>j_status := Pending\<rparr> else r"])
       simp
next
  case (RemoveDoneJobs now olderThan)
  then have "jobs (step ser parse c s)
               = filter (\<lambda>r. \<not> removeDoneJobsStmt (now - olderThan) r) (jobs s)"
    by (simp add: removeDoneJobs_def sql_delete_def Let_def)
  then show ?thesis using RemoveDoneJobs by blast
next
  case (RemoveFailedJobs now olderThan)
  then have "jobs (step ser parse c s)
               = filter (\<lambda>r. \<not> removeFailedJobsStmt (now - olderThan) r) (jobs s)"
    by (simp add: removeFailedJobs_def sql_delete_def Let_def)
  then show ?thesis using RemoveFailedJobs by blast
qed

section \<open>The fields that never change\<close>

text \<open>
  C9. For every job in the store and every call of the queue interface, the job's
  \<open>type\<close>, \<open>data\<close> and \<open>createdAt\<close> (and its \<open>id\<close>) after the call are what they were
  before it. After every call other than the two removals the job is still there; after
  a removal, a job that remains in the store has these fields unchanged (the ids of the
  table are distinct, so the lookup finds the same row).
\<close>

theorem job_fields_immutable:
  assumes "getJobById i s = Some j"
  shows "((\<forall>now olderThan. c \<noteq> RemoveDoneJobs now olderThan \<and> c \<noteq> RemoveFailedJobs now olderThan)
            \<longrightarrow> (\<exists>j'. getJobById i (step ser parse c s) = Some j'
                     \<and> j_id j' = j_id j \<and> j_type j' = j_type j \<and> j_data j' = j_data j
                     \<and> j_createdAt j' = j_createdAt j))
       \<and> (distinct (map j_id (jobs s))
            \<longrightarrow> (\<forall>j'. getJobById i (step ser parse c s) = Some j'
                     \<longrightarrow> j_id j' = j_id j \<and> j_type j' = j_type j \<and> j_data j' = j_data j
                        \<and> j_createdAt j' = j_createdAt j))"
proof -
  have found: "find (\<lambda>r. j_id r = i) (jobs s) = Some j"
    using assms by (simp add: getJobById_def getJobByIdStmt_def)
  consider
    (append) new where "jobs (step ser parse c s) = jobs s @ new"
  | (update) g where "jobs (step ser parse c s) = map g (jobs s)"
      "\<forall>r. j_id (g r) = j_id r \<and> j_type (g r) = j_type r \<and> j_data (g r) = j_data r
                 \<and> j_createdAt (g r) = j_createdAt r"
  | (delete) Q now olderThan where
      "c = RemoveDoneJobs now olderThan \<or> c = RemoveFailedJobs now olderThan"
      "jobs (step ser parse c s) = filter Q (jobs s)"
    using step_jobs_shape[of ser parse c s] by blast
  then show ?thesis
  proof cases
    case append
    then have "getJobById i (step ser parse c s) = Some j"
      by (simp add: getJobById_def getJobByIdStmt_def find_append_cases found)
    then show ?thesis by simp
  next
    case update
    then have "getJobById i (step ser parse c s) = Some (g j)"
      by (simp add: getJobById_def getJobByIdStmt_def find_map_keeps found)
    then show ?thesis using update(2) by simp
  next
    case delete
    have "getJobById i (step ser parse c s) = (if Q j then Some j else None)"
      if "distinct (map j_id (jobs s))"
      by (simp add: getJobById_def getJobByIdStmt_def delete(2) find_filter_distinct[OF that] found)
    then show ?thesis using delete(1) by auto
  qed
qed

theorem job_fields_immutable_witness:
  "getJobById 1 (run Some sample_parseExpression [Add 5 ''paint'' ''red''] empty_store)
     = Some \<lparr>j_id = 1, j_type = ''paint'', j_data = ''red'', j_status = Pending,
             j_createdAt = 5, j_failedAt = None, j_error = None\<rparr>
   \<and> (\<exists>j'. getJobById 1 (step Some sample_parseExpression (MarkJobAsFailed 9 1 ''boom'')
                 (run Some sample_parseExpression [Add 5 ''paint'' ''red''] empty_store)) = Some j'
          \<and> j_id j' = 1 \<and> j_type j' = ''paint'' \<and> j_data j' = ''red'' \<and> j_createdAt j' = 5)"
proof -
  have h: "getJobById 1 (run Some sample_parseExpression [Add 5 ''paint'' ''red''] empty_store)
     = Some \<lparr>j_id = 1, j_type = ''paint'', j_data = ''red'', j_status = Pending,
             j_createdAt = 5, j_failedAt = None, j_error = None\<rparr>"
    by (simp add: eval_defs getJobById_def getJobByIdStmt_def)
  show ?thesis
    using h job_fields_immutable[OF h, of "MarkJobAsFailed 9 1 ''boom''" Some sample_parseExpression]
    by simp
qed

section \<open>The failedAt and error fields in reachable stores\<close>

lemma step_failed_fields:
  assumes ids: "distinct (map j_id (jobs s))" and ok: "list_all failed_fields_as_coded (jobs s)"
  shows "list_all failed_fields_as_coded (jobs (step ser parse c s))"
proof (cases c)
  case (Add now ty d)
  then show ?thesis using ok
    by (simp add: jobs_add failed_fields_as_coded_def split: option.splits)
next
  case (AddMany now ty ds)
  from jobs_addMany[of ser now ty ds s] obtain new where
    new: "jobs (snd (addMany ser now ty ds s)) = jobs s @ new"
    "\<forall>k<length new. j_id (new ! k) = next_rowid (jobs_seq s) (map j_id (jobs s)) + int k
               \<and> j_status (new ! k) = Pending \<and> j_failedAt (new ! k) = None
               \<and> j_error (new ! k) = None"
    by blast
  then have "list_all failed_fields_as_coded new"
    by (simp add: list_all_length failed_fields_as_coded_def)
  then show ?thesis using AddMany ok new(1) by simp
next
  case (Schedule now ty cron)
  then show ?thesis using ok by (simp add: jobs_schedule)
next
  case (GetAndMarkJobAsProcessing ty)
  show ?thesis
  proof (cases "sql_select_order_limit1 (\<lambda>r. j_status r = Pending \<and> j_type r = ty)
                  j_createdAt (jobs s)")
    case None
    then show ?thesis using ok GetAndMarkJobAsProcessing
      by (simp add: jobs_getAndMarkJobAsProcessing getAndMarkJobAsProcessingStmt_def)
  next
    case (Some c')
    from select_Some[OF Some] have c': "c' \<in> set (jobs s)" "j_status c' = Pending" by auto
    have "list_all failed_fields_as_coded
            (sql_update (\<lambda>r. j_id r = j_id c') (\<lambda>r. r\<lparr>j_status := Processing\<rparr>) (jobs s))"
    proof (rule list_all_sql_update[OF ok])
      fix r assume r: "r \<in> set (jobs s)" "failed_fields_as_coded r" "j_id r = j_id c'"
      then have "r = c'" using distinct_map_eq[OF ids r(1) c'(1)] by simp
      then show "failed_fields_as_coded (r\<lparr>j_status := Processing\<rparr>)"
        using r(2) c'(2) by (simp add: failed_fields_as_coded_def)
    qed
    then show ?thesis using GetAndMarkJobAsProcessing Some
      by (simp add: jobs_getAndMarkJobAsProcessing getAndMarkJobAsProcessingStmt_def)
  qed
next
  case (GetAndMarkScheduledJobAsProcessing now)
  then show ?thesis using ok by (simp add: jobs_getAndMarkScheduledJobAsProcessing)
next
  case (MarkJobAsDone i)
  have "list_all failed_fields_as_coded (updateJobStatusStmt Done i (jobs s))"
    unfolding updateJobStatusStmt_def
    by (rule list_all_sql_update[OF ok]) (simp add: failed_fields_as_coded_def)
  then show ?thesis using MarkJobAsDone by (simp add: markJobAsDone_def)
next
  case (MarkJobAsFailed now i err)
  have "list_all failed_fields_as_coded (failJobStmt now err i (jobs s))"
    unfolding failJobStmt_def
    by (rule list_all_sql_update[OF ok]) (simp add: failed_fields_as_coded_def)
  then show ?thesis using MarkJobAsFailed by (simp add: markJobAsFailed_def)
next
  case (MarkScheduledJobAsIdle i nextRun)
  then show ?thesis using ok by (simp add: markScheduledJobAsIdle_def)
next
  case (RequeueTimedOutJobs now timeout)
  have "list_all failed_fields_as_coded (requeueTimedOutJobsStmt (now - timeout) (jobs s))"
    unfolding requeueTimedOutJobsStmt_def
    by (rule list_all_sql_update[OF ok]) (simp add: failed_fields_as_coded_def)
  then show ?thesis using RequeueTimedOutJobs by (simp add: requeueTimedOutJobs_def Let_def)
next
  case (RemoveDoneJobs now olderThan)
  then show ?thesis using ok
    by (simp add: removeDoneJobs_def Let_def sql_delete_def list_all_iff)
next
  case (RemoveFailedJobs now olderThan)
  then show ?thesis using ok
    by (simp add: removeFailedJobs_def Let_def sql_delete_def list_all_iff)
qed

lemma run_failed_fields:
  "distinct (map j_id (jobs s)) \<Longrightarrow> list_all failed_fields_as_coded (jobs s) \<Longrightarrow>
     list_all failed_fields_as_coded (jobs (run ser parse cs s))"
  unfolding run_def
  by (induction cs arbitrary: s) (auto simp: step_distinct_ids step_failed_fields)

text \<open>
  C3. In every store reachable from the empty store by calls of the queue interface,
  the claim is that \<open>failedAt\<close> and \<open>error\<close> are both set iff the status is \<open>Failed\<close> and
  both unset otherwise. The source keeps less: \<open>markJobAsDone\<close> sets only \<open>status\<close>, and
  no statement ever clears \<open>failed_at\<close> or \<open>error\<close>, so a job that failed and is then
  marked done is \<open>Done\<close> with both fields set. What holds in every reachable store: a
  \<open>Failed\<close> job has both fields set, a \<open>Pending\<close> or \<open>Processing\<close> job has both unset,
  and on every job \<open>failedAt\<close> is set iff \<open>error\<close> is.
\<close>

theorem failed_fields_invariant:
  "list_all failed_fields_as_coded (jobs (run ser parse cs empty_store))"
  by (rule run_failed_fields) (simp_all add: empty_store_def)

theorem failed_fields_invariant_witness:
  "map (\<lambda>r. (j_status r, j_failedAt r, j_error r))
     (jobs (run Some (\<lambda>c. Inr ())
        [Add 1 ''t'' ''x'', Add 1 ''t'' ''y'', MarkJobAsFailed 2 1 ''boom'', MarkJobAsDone 1,
         MarkJobAsFailed 3 2 ''bang''] empty_store))
     = [(Done, Some 2, Some ''boom''), (Failed, Some 3, Some ''bang'')]
   \<and> list_all failed_fields_as_coded
       (jobs (run Some (\<lambda>c. Inr ())
          [Add 1 ''t'' ''x'', Add 1 ''t'' ''y'', MarkJobAsFailed 2 1 ''boom'', MarkJobAsDone 1,
           MarkJobAsFailed 3 2 ''bang''] empty_store))"
  using failed_fields_invariant[of Some "\<lambda>c. Inr ()"
          "[Add 1 ''t'' ''x'', Add 1 ''t'' ''y'', MarkJobAsFailed 2 1 ''boom'', MarkJobAsDone 1,
            MarkJobAsFailed 3 2 ''bang'']"]
  by (simp add: eval_defs markJobAsFailed_def failJobStmt_def markJobAsDone_def
        updateJobStatusStmt_def)

theorem failed_fields_counterexample:
  "\<not> list_all failed_fields_as_specified
       (jobs (run Some (\<lambda>c. Inr ())
          [Add 1 ''t'' ''x'', MarkJobAsFailed 2 1 ''boom'', MarkJobAsDone 1] empty_store))"
  by (simp add: eval_defs markJobAsFailed_def failJobStmt_def markJobAsDone_def
        updateJobStatusStmt_def failed_fields_as_specified_def)

section \<open>Requeueing timed-out jobs: requeueTimedOutJobs\<close>

lemma getAndMarkJobAsProcessing_returns_candidate:
  assumes ids: "distinct (map j_id (jobs s))"
      and sel: "sql_select_order_limit1 (\<lambda>r. j_status r = Pending \<and> j_type r = t) j_createdAt
                  (jobs s) = Some c"
      and older: "\<forall>r\<in>set (jobs s). j_status r = Processing \<and> j_type r = t
                    \<longrightarrow> j_createdAt c < j_createdAt r"
  shows "fst (getAndMarkJobAsProcessing t s) = Some (c\<lparr>j_status := Processing\<rparr>)"
proof -
  let ?g = "\<lambda>r. if j_id r = j_id c then r\<lparr>j_status := Processing\<rparr> else r"
  let ?rows = "map ?g (jobs s)"
  let ?P = "\<lambda>r. j_status r = Processing \<and> j_type r = t"
  from select_Some[OF sel] have c: "c \<in> set (jobs s)" "j_status c = Pending" "j_type c = t"
    by auto
  have res: "fst (getAndMarkJobAsProcessing t s) = sql_select_order_limit1 ?P j_createdAt ?rows"
    by (simp add: getAndMarkJobAsProcessing_def getAndMarkJobAsProcessingStmt_def sel
          getUpdatedJobStmt_def sql_update_def Let_def)
  have gc: "?g c \<in> set ?rows" "?P (?g c)" using c by auto
  then have "sql_select_order_limit1 ?P j_createdAt ?rows \<noteq> None"
    unfolding select_None by blast
  then obtain h where h: "sql_select_order_limit1 ?P j_createdAt ?rows = Some h" by auto
  from select_Some[OF h] have hin: "h \<in> set ?rows" and hP: "?P h"
    and hmin: "\<forall>x\<in>set ?rows. ?P x \<longrightarrow> j_createdAt h \<le> j_createdAt x" by auto
  from hmin gc have le: "j_createdAt h \<le> j_createdAt c" by fastforce
  from hin obtain r where r: "r \<in> set (jobs s)" "h = ?g r" by auto
  have "h = c\<lparr>j_status := Processing\<rparr>"
  proof (cases "j_id r = j_id c")
    case True
    then have "r = c" using distinct_map_eq[OF ids r(1) c(1)] by simp
    then show ?thesis using r(2) by simp
  next
    case False
    then have "h = r" using r(2) by simp
    then have "j_createdAt c < j_createdAt h" using older r(1) hP by simp
    then show ?thesis using le by simp
  qed
  then show ?thesis using res h by simp
qed

lemma run_Cons: "run ser parse (c # cs) s = run ser parse cs (step ser parse c s)"
  by (simp add: run_def)

lemma run_markJobAsDone:
  "jobs (run ser parse (map MarkJobAsDone is) s)
     = map (\<lambda>r. if j_id r \<in> set is then r\<lparr>j_status := Done\<rparr> else r) (jobs s)"
proof (induction "is" arbitrary: s)
  case Nil
  then show ?case by (simp add: run_def)
next
  case (Cons i "is")
  have "jobs (step ser parse (MarkJobAsDone i) s)
          = map (\<lambda>r. if j_id r = i then r\<lparr>j_status := Done\<rparr> else r) (jobs s)"
    by (simp add: markJobAsDone_def updateJobStatusStmt_def sql_update_def)
  then show ?case by (simp add: run_Cons Cons.IH)
qed

lemma jobs_requeueTimedOutJobs:
  "jobs (snd (requeueTimedOutJobs now timeout s))
     = map (\<lambda>r. if j_status r = Processing \<and> j_createdAt r < now - timeout
                 then r\<lparr>j_status := Pending\<rparr> else r) (jobs s)"
  by (simp add: requeueTimedOutJobs_def requeueTimedOutJobsStmt_def sql_update_def Let_def)

lemma requeued_claim_next:
  assumes ids: "distinct (map j_id (jobs s))"
      and j: "j \<in> set (jobs s)" "j_status j = Processing" "j_createdAt j < now - timeout"
      and sel: "sql_select_order_limit1 (\<lambda>r. j_status r = Pending \<and> j_type r = j_type j)
                  j_createdAt (jobs (snd (requeueTimedOutJobs now timeout s)))
                = Some (j\<lparr>j_status := Pending\<rparr>)"
  shows "fst (getAndMarkJobAsProcessing (j_type j) (snd (requeueTimedOutJobs now timeout s)))
           = Some j"
proof -
  let ?s' = "snd (requeueTimedOutJobs now timeout s)"
  have ids': "distinct (map j_id (jobs ?s'))"
    using ids by (simp add: jobs_requeueTimedOutJobs o_def if_distrib cong: if_cong)
  have older: "\<forall>r\<in>set (jobs ?s'). j_status r = Processing \<and> j_type r = j_type j
                 \<longrightarrow> j_createdAt (j\<lparr>j_status := Pending\<rparr>) < j_createdAt r"
    using j(3) by (auto simp: jobs_requeueTimedOutJobs split: if_splits)
  from getAndMarkJobAsProcessing_returns_candidate[OF ids' sel older]
  show ?thesis using j(2) by (simp add: j_status_update_same)
qed

lemma requeued_claim_eventually:
  assumes ids: "distinct (map j_id (jobs s))"
      and j: "j \<in> set (jobs s)" "j_status j = Processing" "j_createdAt j < now - timeout"
  shows "fst (getAndMarkJobAsProcessing (j_type j)
           (run ser parse
              (map MarkJobAsDone
                 (filter (\<lambda>i. i \<noteq> j_id j) (map j_id (jobs (snd (requeueTimedOutJobs now timeout s))))))
              (snd (requeueTimedOutJobs now timeout s))))
         = Some j"
proof -
  let ?s' = "snd (requeueTimedOutJobs now timeout s)"
  let ?is = "filter (\<lambda>i. i \<noteq> j_id j) (map j_id (jobs ?s'))"
  let ?s'' = "run ser parse (map MarkJobAsDone ?is) ?s'"
  let ?j0 = "j\<lparr>j_status := Pending\<rparr>"
  let ?h = "\<lambda>r. if j_id r \<noteq> j_id j then r\<lparr>j_status := Done\<rparr> else r"
  have ids': "distinct (map j_id (jobs ?s'))"
    using ids by (simp add: jobs_requeueTimedOutJobs o_def if_distrib cong: if_cong)
  have j0: "?j0 \<in> set (jobs ?s')"
    using j by (force simp: jobs_requeueTimedOutJobs)
  have rows'': "jobs ?s'' = map ?h (jobs ?s')"
    unfolding run_markJobAsDone by (rule map_cong) auto
  have ids'': "distinct (map j_id (jobs ?s''))"
    using ids' by (simp add: rows'' o_def if_distrib cong: if_cong)
  have only: "r = ?j0" if "r \<in> set (jobs ?s'')" "j_status r \<noteq> Done" for r
  proof -
    from that(1) obtain r0 where r0: "r0 \<in> set (jobs ?s')" "r = ?h r0"
      unfolding rows'' by auto
    with that(2) have "j_id r0 = j_id j" by (auto split: if_splits)
    then have "r0 = ?j0" using distinct_map_eq[OF ids' r0(1) j0] by simp
    then show ?thesis using r0(2) by simp
  qed
  have j0'': "?j0 \<in> set (jobs ?s'')"
    unfolding rows'' using j0 by force
  let ?P = "\<lambda>r. j_status r = Pending \<and> j_type r = j_type j"
  have "sql_select_order_limit1 ?P j_createdAt (jobs ?s'') \<noteq> None"
    unfolding select_None using j0'' by force
  then obtain c where c: "sql_select_order_limit1 ?P j_createdAt (jobs ?s'') = Some c" by auto
  from select_Some[OF c] have "c \<in> set (jobs ?s'')" "j_status c = Pending" by auto
  then have "c = ?j0" using only[of c] by simp
  then have sel: "sql_select_order_limit1 ?P j_createdAt (jobs ?s'') = Some ?j0" using c by simp
  have older: "\<forall>r\<in>set (jobs ?s''). j_status r = Processing \<and> j_type r = j_type j
                 \<longrightarrow> j_createdAt ?j0 < j_createdAt r"
    using only by fastforce
  from getAndMarkJobAsProcessing_returns_candidate[OF ids'' sel older]
  show ?thesis using j(2) by (simp add: j_status_update_same)
qed


text \<open>
  C4. \<open>requeueTimedOutJobs timeout\<close> sets the status to \<open>Pending\<close> on exactly the jobs
  that are \<open>Processing\<close> with \<open>createdAt < now - timeout\<close> and leaves every other job as
  it is (it returns their number). A job so requeued can be returned again by
  \<open>getAndMarkJobAsProcessing\<close> of its type: the very next call returns it when every other
  \<open>Pending\<close> job of its type is younger, and in any case some sequence of calls leads to
  a store in which the call returns it (marking the other jobs done is one).
\<close>

theorem requeueTimedOutJobs_requeues_exactly:
  assumes ids: "distinct (map j_id (jobs s))"
  shows "fst (requeueTimedOutJobs now timeout s)
           = length (filter (\<lambda>r. j_status r = Processing \<and> j_createdAt r < now - timeout)
                       (jobs s))
       \<and> (\<forall>i. getJobById i (snd (requeueTimedOutJobs now timeout s))
                = map_option (\<lambda>r. if j_status r = Processing \<and> j_createdAt r < now - timeout
                                   then r\<lparr>j_status := Pending\<rparr> else r) (getJobById i s))
       \<and> (\<forall>j\<in>set (jobs s). j_status j = Processing \<and> j_createdAt j < now - timeout \<longrightarrow>
             getJobById (j_id j) (snd (requeueTimedOutJobs now timeout s))
               = Some (j\<lparr>j_status := Pending\<rparr>)
             \<and> ((\<forall>r\<in>set (jobs (snd (requeueTimedOutJobs now timeout s))).
                     j_status r = Pending \<and> j_type r = j_type j \<and> j_id r \<noteq> j_id j
                       \<longrightarrow> j_createdAt j < j_createdAt r)
                  \<longrightarrow> fst (getAndMarkJobAsProcessing (j_type j)
                             (snd (requeueTimedOutJobs now timeout s))) = Some j)
             \<and> (\<exists>cs. fst (getAndMarkJobAsProcessing (j_type j)
                             (run ser parse cs (snd (requeueTimedOutJobs now timeout s))))
                        = Some j))"
proof -
  let ?s' = "snd (requeueTimedOutJobs now timeout s)"
  let ?g = "\<lambda>r. if j_status r = Processing \<and> j_createdAt r < now - timeout
                 then r\<lparr>j_status := Pending\<rparr> else r"
  have 1: "fst (requeueTimedOutJobs now timeout s)
           = length (filter (\<lambda>r. j_status r = Processing \<and> j_createdAt r < now - timeout)
                       (jobs s))"
    by (simp add: requeueTimedOutJobs_def sql_changes_def Let_def)
  have 2: "getJobById i ?s' = map_option ?g (getJobById i s)" for i
    by (simp add: getJobById_def getJobByIdStmt_def jobs_requeueTimedOutJobs find_map_keeps)
  have 3: "getJobById (j_id j) ?s' = Some (j\<lparr>j_status := Pending\<rparr>)
           \<and> ((\<forall>r\<in>set (jobs ?s'). j_status r = Pending \<and> j_type r = j_type j \<and> j_id r \<noteq> j_id j
                       \<longrightarrow> j_createdAt j < j_createdAt r)
                  \<longrightarrow> fst (getAndMarkJobAsProcessing (j_type j) ?s') = Some j)
           \<and> (\<exists>cs. fst (getAndMarkJobAsProcessing (j_type j) (run ser parse cs ?s')) = Some j)"
    if j: "j \<in> set (jobs s)" "j_status j = Processing" "j_createdAt j < now - timeout" for j
  proof (intro conjI impI)
    have "getJobById (j_id j) s = Some j"
      using find_distinct_mem[OF ids j(1)] by (simp add: getJobById_def getJobByIdStmt_def)
    then show "getJobById (j_id j) ?s' = Some (j\<lparr>j_status := Pending\<rparr>)"
      using j by (simp add: 2)
  next
    assume oldest: "\<forall>r\<in>set (jobs ?s'). j_status r = Pending \<and> j_type r = j_type j \<and> j_id r \<noteq> j_id j
                       \<longrightarrow> j_createdAt j < j_createdAt r"
    let ?j0 = "j\<lparr>j_status := Pending\<rparr>"
    have ids': "distinct (map j_id (jobs ?s'))"
      using ids by (simp add: jobs_requeueTimedOutJobs o_def if_distrib cong: if_cong)
    have j0: "?j0 \<in> set (jobs ?s')"
      using j by (force simp: jobs_requeueTimedOutJobs)
    have "\<forall>r\<in>set (jobs ?s'). (j_status r = Pending \<and> j_type r = j_type j) \<and> r \<noteq> ?j0
             \<longrightarrow> j_createdAt ?j0 < j_createdAt r"
    proof (intro ballI impI)
      fix r assume r: "r \<in> set (jobs ?s')" "(j_status r = Pending \<and> j_type r = j_type j) \<and> r \<noteq> ?j0"
      then have "j_id r \<noteq> j_id j" using distinct_map_eq[OF ids' r(1) j0] by auto
      then show "j_createdAt ?j0 < j_createdAt r" using oldest r by simp
    qed
    then have "sql_select_order_limit1 (\<lambda>r. j_status r = Pending \<and> j_type r = j_type j)
                 j_createdAt (jobs ?s') = Some ?j0"
      using j0 by (intro select_strictly_oldest) simp_all
    from requeued_claim_next[OF ids j this]
    show "fst (getAndMarkJobAsProcessing (j_type j) ?s') = Some j" .
  next
    show "\<exists>cs. fst (getAndMarkJobAsProcessing (j_type j) (run ser parse cs ?s')) = Some j"
      using requeued_claim_eventually[OF ids j, of ser parse] by blast
  qed
  show ?thesis using 1 2 3 by blast
qed

theorem requeueTimedOutJobs_requeues_exactly_witness:
  "distinct (map j_id (jobs requeue_store))
   \<and> fst (requeueTimedOutJobs 100 30 requeue_store) = 1
   \<and> map j_status (jobs (snd (requeueTimedOutJobs 100 30 requeue_store)))
       = [Pending, Processing, Pending, Done]
   \<and> map_option j_id (fst (getAndMarkJobAsProcessing ''t''
        (run Some sample_parseExpression [MarkJobAsDone 2, MarkJobAsDone 3]
           (snd (requeueTimedOutJobs 100 30 requeue_store))))) = Some 1"
  using requeueTimedOutJobs_requeues_exactly[of requeue_store 100 30 Some sample_parseExpression]
  by (simp add: requeue_store_def requeueTimedOutJobs_def requeueTimedOutJobsStmt_def
        sql_changes_def markJobAsDone_def updateJobStatusStmt_def eval_defs)


section \<open>Retention: removeDoneJobs and removeFailedJobs\<close>

text \<open>
  C5. \<open>removeDoneJobs olderThan\<close> deletes exactly the jobs with status \<open>Done\<close> and
  \<open>createdAt < now - olderThan\<close>, and \<open>removeFailedJobs olderThan\<close> deletes exactly the
  jobs with status \<open>Failed\<close> and \<open>failedAt < now - olderThan\<close>. A \<open>Done\<close> job created at
  \<open>now - olderThan - 1\<close> is removed, one created at \<open>now - olderThan + 1\<close> is kept, and
  a \<open>Pending\<close> or \<open>Processing\<close> job is never deleted. The ids of the table are distinct
  (\<open>id\<close> is its primary key), so that a lookup by id identifies one row.
\<close>

theorem removeJobs_retention:
  assumes "distinct (map j_id (jobs s))"
  shows "jobs (snd (removeDoneJobs now olderThan s))
           = filter (\<lambda>r. \<not> (j_status r = Done \<and> j_createdAt r < now - olderThan)) (jobs s)
       \<and> jobs (snd (removeFailedJobs now olderThan s))
           = filter (\<lambda>r. \<not> (j_status r = Failed
                              \<and> (\<exists>f. j_failedAt r = Some f \<and> f < now - olderThan)))
               (jobs s)
       \<and> getJobById i (snd (removeDoneJobs now olderThan s))
           = (case getJobById i s of
                None \<Rightarrow> None
              | Some j \<Rightarrow>
                  if j_status j = Done \<and> j_createdAt j < now - olderThan then None else Some j)
       \<and> getJobById i (snd (removeFailedJobs now olderThan s))
           = (case getJobById i s of
                None \<Rightarrow> None
              | Some j \<Rightarrow>
                  if j_status j = Failed \<and> (\<exists>f. j_failedAt j = Some f \<and> f < now - olderThan)
                  then None else Some j)
       \<and> (\<forall>j\<in>set (jobs s). j_status j = Done \<and> j_createdAt j = now - olderThan - 1
             \<longrightarrow> j \<notin> set (jobs (snd (removeDoneJobs now olderThan s))))
       \<and> (\<forall>j\<in>set (jobs s). j_status j = Done \<and> j_createdAt j = now - olderThan + 1
             \<longrightarrow> j \<in> set (jobs (snd (removeDoneJobs now olderThan s))))
       \<and> (\<forall>j\<in>set (jobs s). j_status j = Pending \<or> j_status j = Processing
             \<longrightarrow> j \<in> set (jobs (snd (removeDoneJobs now olderThan s)))
               \<and> j \<in> set (jobs (snd (removeFailedJobs now olderThan s))))"
proof -
  have fl: "removeFailedJobsStmt th
              = (\<lambda>r. j_status r = Failed \<and> (\<exists>f. j_failedAt r = Some f \<and> f < th))" for th
    by (auto simp: removeFailedJobsStmt_def fun_eq_iff split: option.splits)
  have dn: "removeDoneJobsStmt th = (\<lambda>r. j_status r = Done \<and> j_createdAt r < th)" for th
    by (auto simp: removeDoneJobsStmt_def fun_eq_iff)
  have 1: "jobs (snd (removeDoneJobs now olderThan s))
           = filter (\<lambda>r. \<not> (j_status r = Done \<and> j_createdAt r < now - olderThan)) (jobs s)"
    by (simp add: removeDoneJobs_def Let_def sql_delete_def dn)
  have 2: "jobs (snd (removeFailedJobs now olderThan s))
           = filter (\<lambda>r. \<not> (j_status r = Failed
                              \<and> (\<exists>f. j_failedAt r = Some f \<and> f < now - olderThan)))
               (jobs s)"
    by (simp add: removeFailedJobs_def Let_def sql_delete_def fl)
  have 3: "getJobById i (snd (removeDoneJobs now olderThan s))
           = (case getJobById i s of
                None \<Rightarrow> None
              | Some j \<Rightarrow>
                  if j_status j = Done \<and> j_createdAt j < now - olderThan then None else Some j)"
    by (simp add: getJobById_def removeDoneJobs_def Let_def getJobById_sql_delete[OF assms] dn)
  have 4: "getJobById i (snd (removeFailedJobs now olderThan s))
           = (case getJobById i s of
                None \<Rightarrow> None
              | Some j \<Rightarrow>
                  if j_status j = Failed \<and> (\<exists>f. j_failedAt j = Some f \<and> f < now - olderThan)
                  then None else Some j)"
    by (simp add: getJobById_def removeFailedJobs_def Let_def getJobById_sql_delete[OF assms] fl)
  have 5: "\<forall>j\<in>set (jobs s). j_status j = Done \<and> j_createdAt j = now - olderThan - 1
             \<longrightarrow> j \<notin> set (jobs (snd (removeDoneJobs now olderThan s)))"
    unfolding 1 by simp
  have 6: "\<forall>j\<in>set (jobs s). j_status j = Done \<and> j_createdAt j = now - olderThan + 1
             \<longrightarrow> j \<in> set (jobs (snd (removeDoneJobs now olderThan s)))"
    unfolding 1 by simp
  have 7: "\<forall>j\<in>set (jobs s). j_status j = Pending \<or> j_status j = Processing
             \<longrightarrow> j \<in> set (jobs (snd (removeDoneJobs now olderThan s)))
               \<and> j \<in> set (jobs (snd (removeFailedJobs now olderThan s)))"
    unfolding 1 2 by auto
  show ?thesis using 1 2 3 4 5 6 7 by blast
qed

theorem removeJobs_retention_witness:
  "distinct (map j_id (jobs retention_store))
   \<and> map j_id (jobs (snd (removeDoneJobs 100 20 retention_store))) = [2, 3, 4, 5]
   \<and> map j_id (jobs (snd (removeFailedJobs 100 20 retention_store))) = [1, 2, 4, 5]
   \<and> getJobById 1 (snd (removeDoneJobs 100 20 retention_store)) = None
   \<and> map_option j_createdAt (getJobById 2 (snd (removeDoneJobs 100 20 retention_store)))
       = Some 81"
  using removeJobs_retention[of retention_store 100 20 1]
        removeJobs_retention[of retention_store 100 20 2]
  by (simp add: retention_store_def getJobById_def getJobByIdStmt_def)

section \<open>Scheduling: schedule\<close>

lemma schedule_invalid:
  "parse cron = Inl msg \<Longrightarrow>
     schedule parse now t cron s
       = (Inl (Error (''invalid cron expression provided: '' @ cron @ '' '' @ msg)), s)"
  by (simp add: schedule_def)

lemma schedule_insert:
  assumes "parse cron = Inr u" and "\<forall>r\<in>set (scheduled_jobs s). sj_type r \<noteq> t"
  shows "schedule parse now t cron s
       = (Inr (next_rowid (scheduled_jobs_seq s) (map sj_id (scheduled_jobs s))),
          s\<lparr>scheduled_jobs := scheduled_jobs s @
               [\<lparr>sj_id = next_rowid (scheduled_jobs_seq s) (map sj_id (scheduled_jobs s)),
                 sj_type = t, sj_status = ScheduledIdle, sj_createdAt = now,
                 sj_cronExpression = cron, sj_nextRun = 0\<rparr>],
             scheduled_jobs_seq :=
               next_rowid (scheduled_jobs_seq s) (map sj_id (scheduled_jobs s))\<rparr>)"
proof -
  have "getScheduledJobByTypeStmt t (scheduled_jobs s) = None"
    using assms(2) by (simp add: getScheduledJobByTypeStmt_def find_None_iff)
  moreover have "t \<notin> set (map sj_type (scheduled_jobs s))" using assms(2) by auto
  ultimately show ?thesis using assms(1)
    by (simp add: schedule_def insertScheduledJobStmt_def Let_def)
qed

lemma schedule_update:
  assumes "parse cron = Inr u" and "getScheduledJobByTypeStmt t (scheduled_jobs s) = Some found"
  shows "schedule parse now t cron s
       = (Inr (sj_id found),
          s\<lparr>scheduled_jobs :=
              map (\<lambda>r. if sj_id r = sj_id found then r\<lparr>sj_cronExpression := cron\<rparr> else r)
                (scheduled_jobs s)\<rparr>)"
  using assms by (simp add: schedule_def updateScheduledJobCronExpressionStmt_def sql_update_def)

text \<open>
  C7. \<open>schedule\<close> throws its invalid-cron-expression error if and only if the parser
  rejects the expression; the error is the result of the call itself, and the store is
  then what it was before the call. (When the parser accepts the expression no statement
  of \<open>schedule\<close> fails: the insert runs only when no row of the type exists, so the
  \<open>UNIQUE\<close> constraint on \<open>type\<close> holds.)
\<close>

theorem schedule_fails_iff_cron_invalid:
  "((\<exists>e. fst (schedule parse now t cron s) = Inl e) \<longleftrightarrow> (\<exists>msg. parse cron = Inl msg))
   \<and> ((\<exists>e. fst (schedule parse now t cron s) = Inl e)
        \<longrightarrow> snd (schedule parse now t cron s) = s)
   \<and> (\<forall>msg. parse cron = Inl msg \<longrightarrow>
         fst (schedule parse now t cron s)
           = Inl (Error (''invalid cron expression provided: '' @ cron @ '' '' @ msg)))"
proof (cases "parse cron")
  case (Inl msg)
  then show ?thesis by (simp add: schedule_invalid)
next
  case (Inr u)
  show ?thesis
  proof (cases "getScheduledJobByTypeStmt t (scheduled_jobs s)")
    case None
    then have "\<forall>r\<in>set (scheduled_jobs s). sj_type r \<noteq> t"
      by (simp add: getScheduledJobByTypeStmt_def find_None_iff)
    then show ?thesis using Inr by (simp add: schedule_insert)
  next
    case (Some found)
    then show ?thesis using Inr by (simp add: schedule_update)
  qed
qed

theorem schedule_fails_iff_cron_invalid_witness:
  "fst (schedule sample_parseExpression 7 ''invalid'' ''invalid cron expression'' empty_store)
     = Inl (Error ''invalid cron expression provided: invalid cron expression rejected'')
   \<and> snd (schedule sample_parseExpression 7 ''invalid'' ''invalid cron expression''
          empty_store) = empty_store
   \<and> fst (schedule sample_parseExpression 7 ''scheduled'' ''* * * * *'' empty_store) = Inr 1"
  using schedule_fails_iff_cron_invalid
          [of sample_parseExpression 7 "''invalid''" "''invalid cron expression''" empty_store]
        schedule_fails_iff_cron_invalid
          [of sample_parseExpression 7 "''scheduled''" "''* * * * *''" empty_store]
  by (simp add: sample_parseExpression_def schedule_def empty_store_def
        getScheduledJobByTypeStmt_def insertScheduledJobStmt_def next_rowid_def)

section \<open>The scheduled jobs in reachable stores\<close>

lemma scheduled_jobs_add: "scheduled_jobs (snd (add ser now ty d s)) = scheduled_jobs s"
  by (simp add: add_def insertJobStmt_def Let_def split: option.splits)

lemma scheduled_jobs_addMany: "scheduled_jobs (snd (addMany ser now ty ds s)) = scheduled_jobs s"
proof (cases "\<forall>d\<in>set ds. ser d \<noteq> None")
  case True
  then have "\<forall>j\<in>set (map (\<lambda>d. (ty, ser d, now)) ds). fst (snd j) \<noteq> None" by auto
  from insertManyJobs_all[OF this, of "[]" s] show ?thesis
    by (auto simp: addMany_def transaction_def)
next
  case False
  then have "\<exists>j\<in>set (map (\<lambda>d. (ty, ser d, now)) ds). fst (snd j) = None" by auto
  from insertManyJobs_fails[OF this, of "[]" s] show ?thesis
    by (auto simp: addMany_def transaction_def)
qed

lemma sj_keys_sql_update:
  "(\<And>r. sj_id (upd r) = sj_id r \<and> sj_type (upd r) = sj_type r) \<Longrightarrow>
     map (\<lambda>r. (sj_id r, sj_type r)) (sql_update wh upd rows) = map (\<lambda>r. (sj_id r, sj_type r)) rows"
  by (simp add: sql_update_def)

lemma step_scheduled_shape:
  "map (\<lambda>r. (sj_id r, sj_type r)) (scheduled_jobs (step ser parse c s))
     = map (\<lambda>r. (sj_id r, sj_type r)) (scheduled_jobs s)
   \<or> (\<exists>i ty. i \<notin> set (map sj_id (scheduled_jobs s))
          \<and> ty \<notin> set (map sj_type (scheduled_jobs s))
          \<and> map (\<lambda>r. (sj_id r, sj_type r)) (scheduled_jobs (step ser parse c s))
              = map (\<lambda>r. (sj_id r, sj_type r)) (scheduled_jobs s) @ [(i, ty)])"
proof (cases c)
  case (Add now ty d)
  then show ?thesis by (simp add: scheduled_jobs_add)
next
  case (AddMany now ty ds)
  then show ?thesis by (simp add: scheduled_jobs_addMany)
next
  case (Schedule now ty cron)
  show ?thesis
  proof (cases "parse cron")
    case (Inl msg)
    then show ?thesis using Schedule by (simp add: schedule_invalid)
  next
    case (Inr u)
    show ?thesis
    proof (cases "getScheduledJobByTypeStmt ty (scheduled_jobs s)")
      case None
      then have new: "\<forall>r\<in>set (scheduled_jobs s). sj_type r \<noteq> ty"
        by (simp add: getScheduledJobByTypeStmt_def find_None_iff)
      then have "ty \<notin> set (map sj_type (scheduled_jobs s))" by auto
      moreover have "next_rowid (scheduled_jobs_seq s) (map sj_id (scheduled_jobs s))
                       \<notin> set (map sj_id (scheduled_jobs s))"
        by (rule next_rowid_not_in)
      ultimately show ?thesis using Schedule
        by (intro disjI2) (simp add: schedule_insert[where parse=parse, OF Inr new])
    next
      case (Some found)
      show ?thesis using Schedule
        by (intro disjI1)
           (simp add: schedule_update[where parse=parse, OF Inr Some] o_def if_distrib
              cong: if_cong)
    qed
  qed
next
  case (GetAndMarkJobAsProcessing ty)
  then show ?thesis by (simp add: getAndMarkJobAsProcessing_def Let_def)
next
  case (GetAndMarkScheduledJobAsProcessing now)
  then show ?thesis
    by (simp add: getAndMarkScheduledJobAsProcessing_def updateScheduledJobStatusStmt_def
          sj_keys_sql_update split: option.splits)
next
  case (MarkJobAsDone i)
  then show ?thesis by (simp add: markJobAsDone_def)
next
  case (MarkJobAsFailed now i err)
  then show ?thesis by (simp add: markJobAsFailed_def)
next
  case (MarkScheduledJobAsIdle i nextRun)
  then show ?thesis
    by (simp add: markScheduledJobAsIdle_def updateScheduledJobStatusStmt_def sj_keys_sql_update)
next
  case (RequeueTimedOutJobs now timeout)
  then show ?thesis by (simp add: requeueTimedOutJobs_def Let_def)
next
  case (RemoveDoneJobs now olderThan)
  then show ?thesis by (simp add: removeDoneJobs_def Let_def)
next
  case (RemoveFailedJobs now olderThan)
  then show ?thesis by (simp add: removeFailedJobs_def Let_def)
qed

lemma sj_keys_same:
  assumes "map (\<lambda>r. (sj_id r, sj_type r)) xs = map (\<lambda>r. (sj_id r, sj_type r)) ys"
  shows "map sj_id xs = map sj_id ys \<and> map sj_type xs = map sj_type ys"
  using arg_cong[where f="map fst", OF assms] arg_cong[where f="map snd", OF assms]
  by (simp add: o_def)

lemma sj_keys_snoc:
  assumes "map (\<lambda>r. (sj_id r, sj_type r)) xs = map (\<lambda>r. (sj_id r, sj_type r)) ys @ [(i, ty)]"
  shows "map sj_id xs = map sj_id ys @ [i] \<and> map sj_type xs = map sj_type ys @ [ty]"
  using arg_cong[where f="map fst", OF assms] arg_cong[where f="map snd", OF assms]
  by (simp add: o_def)

lemma step_scheduled_inv:
  assumes "distinct (map sj_id (scheduled_jobs s))" and "distinct (map sj_type (scheduled_jobs s))"
  shows "distinct (map sj_id (scheduled_jobs (step ser parse c s)))
       \<and> distinct (map sj_type (scheduled_jobs (step ser parse c s)))
       \<and> (\<exists>ext. map (\<lambda>r. (sj_id r, sj_type r)) (scheduled_jobs (step ser parse c s))
                  = map (\<lambda>r. (sj_id r, sj_type r)) (scheduled_jobs s) @ ext)"
proof -
  let ?k = "\<lambda>r. (sj_id r, sj_type r)"
  from step_scheduled_shape[of ser parse c s]
  consider (same) "map ?k (scheduled_jobs (step ser parse c s)) = map ?k (scheduled_jobs s)"
    | (new) i ty where "i \<notin> set (map sj_id (scheduled_jobs s))"
        "ty \<notin> set (map sj_type (scheduled_jobs s))"
        "map ?k (scheduled_jobs (step ser parse c s)) = map ?k (scheduled_jobs s) @ [(i, ty)]"
    by blast
  then show ?thesis
  proof cases
    case same
    then show ?thesis using assms sj_keys_same[OF same] by simp
  next
    case new
    then show ?thesis using assms sj_keys_snoc[OF new(3)] by simp
  qed
qed

lemma run_scheduled_inv:
  assumes "distinct (map sj_id (scheduled_jobs s))" and "distinct (map sj_type (scheduled_jobs s))"
  shows "distinct (map sj_id (scheduled_jobs (run ser parse cs s)))
       \<and> distinct (map sj_type (scheduled_jobs (run ser parse cs s)))
       \<and> (\<exists>ext. map (\<lambda>r. (sj_id r, sj_type r)) (scheduled_jobs (run ser parse cs s))
                  = map (\<lambda>r. (sj_id r, sj_type r)) (scheduled_jobs s) @ ext)"
  using assms
proof (induction cs arbitrary: s)
  case Nil
  then show ?case by (simp add: run_def)
next
  case (Cons c cs)
  from step_scheduled_inv[OF Cons.prems, of ser parse c] obtain ext1 where
    1: "distinct (map sj_id (scheduled_jobs (step ser parse c s)))"
       "distinct (map sj_type (scheduled_jobs (step ser parse c s)))"
       "map (\<lambda>r. (sj_id r, sj_type r)) (scheduled_jobs (step ser parse c s))
          = map (\<lambda>r. (sj_id r, sj_type r)) (scheduled_jobs s) @ ext1"
    by blast
  from Cons.IH[OF 1(1,2)] obtain ext2 where
    2: "distinct (map sj_id (scheduled_jobs (run ser parse cs (step ser parse c s))))"
       "distinct (map sj_type (scheduled_jobs (run ser parse cs (step ser parse c s))))"
       "map (\<lambda>r. (sj_id r, sj_type r)) (scheduled_jobs (run ser parse cs (step ser parse c s)))
          = map (\<lambda>r. (sj_id r, sj_type r)) (scheduled_jobs (step ser parse c s)) @ ext2"
    by blast
  show ?case using 2 1(3) by (simp add: run_Cons)
qed


lemma schedule_existing_type:
  assumes c2: "parse c2 = Inr u"
      and ids: "distinct (map sj_id (scheduled_jobs s))"
      and types: "distinct (map sj_type (scheduled_jobs s))"
      and old: "old \<in> set (scheduled_jobs s)" "sj_type old = t"
  shows "getScheduledJobById (sj_id old) s = Some old
       \<and> fst (schedule parse now t c2 s) = Inr (sj_id old)
       \<and> length (scheduled_jobs (snd (schedule parse now t c2 s))) = length (scheduled_jobs s)
       \<and> getScheduledJobById (sj_id old) (snd (schedule parse now t c2 s))
           = Some (old\<lparr>sj_cronExpression := c2\<rparr>)
       \<and> (\<forall>k. k \<noteq> sj_id old \<longrightarrow> getScheduledJobById k (snd (schedule parse now t c2 s))
                                    = getScheduledJobById k s)
       \<and> length (filter (\<lambda>r. sj_type r = t)
                   (scheduled_jobs (snd (schedule parse now t c2 s)))) = 1"
proof -
  let ?g = "\<lambda>r. if sj_id r = sj_id old then r\<lparr>sj_cronExpression := c2\<rparr> else r"
  have byid: "getScheduledJobById (sj_id old) s = Some old"
    using find_distinct_mem[OF ids old(1)]
    by (simp add: getScheduledJobById_def getScheduledJobByIdStmt_def)
  have "getScheduledJobByTypeStmt t (scheduled_jobs s) = Some old"
    using find_distinct_mem[OF types old(1)] old(2) by (simp add: getScheduledJobByTypeStmt_def)
  from schedule_update[where parse=parse, OF c2 this]
  have sch: "schedule parse now t c2 s
               = (Inr (sj_id old), s\<lparr>scheduled_jobs := map ?g (scheduled_jobs s)\<rparr>)"
    by simp
  have look: "getScheduledJobById k (snd (schedule parse now t c2 s))
                = map_option ?g (getScheduledJobById k s)" for k
    by (simp add: sch getScheduledJobById_def getScheduledJobByIdStmt_def find_map_keeps)
  have other: "getScheduledJobById k (snd (schedule parse now t c2 s)) = getScheduledJobById k s"
    if "k \<noteq> sj_id old" for k
  proof (cases "getScheduledJobById k s")
    case None
    then show ?thesis by (simp add: look)
  next
    case (Some r)
    then have "sj_id r = k"
      by (auto simp: getScheduledJobById_def getScheduledJobByIdStmt_def find_Some_iff)
    then show ?thesis using Some that by (simp add: look)
  qed
  have "filter (\<lambda>r. sj_type r = t) (map ?g (scheduled_jobs s))
          = map ?g (filter (\<lambda>r. sj_type r = t) (scheduled_jobs s))"
    by (simp add: filter_map o_def if_distrib cong: if_cong)
  then have one: "length (filter (\<lambda>r. sj_type r = t)
                            (scheduled_jobs (snd (schedule parse now t c2 s)))) = 1"
    using length_filter_distinct_key[OF types old(1)] old(2) by (simp add: sch)
  show ?thesis using byid other one by (simp add: look) (simp add: sch)
qed

text \<open>
  C6. On a store with no scheduled job of type \<open>t\<close>, \<open>schedule t c1\<close> with a valid
  expression inserts one new row, \<open>Idle\<close> with \<open>nextRun = 0\<close>, under a fresh id, and
  returns that id. A later \<open>schedule t c2\<close>, after any calls of the queue interface in
  between, returns the same id, adds no row, and changes only the cron expression of
  that row. At most one scheduled job per type exists in every store reached. The ids
  and the types of the scheduled jobs are distinct in the store the first call starts
  from (\<open>id\<close> is the primary key, \<open>type\<close> is \<open>UNIQUE\<close>).
\<close>

theorem schedule_upsert_by_type:
  assumes c1: "parse c1 = Inr ()" and c2: "parse c2 = Inr ()"
      and ids: "distinct (map sj_id (scheduled_jobs s))"
      and types: "distinct (map sj_type (scheduled_jobs s))"
      and new: "\<forall>r\<in>set (scheduled_jobs s). sj_type r \<noteq> t"
  shows "\<exists>i s1. schedule parse now1 t c1 s = (Inr i, s1)
           \<and> scheduled_jobs s1 = scheduled_jobs s @
                [\<lparr>sj_id = i, sj_type = t, sj_status = ScheduledIdle, sj_createdAt = now1,
                  sj_cronExpression = c1, sj_nextRun = 0\<rparr>]
           \<and> getScheduledJobById i s = None
           \<and> (\<forall>cs. \<exists>old. getScheduledJobById i (run ser parse cs s1) = Some old
                  \<and> sj_type old = t
                  \<and> fst (schedule parse now2 t c2 (run ser parse cs s1)) = Inr i
                  \<and> length (scheduled_jobs (snd (schedule parse now2 t c2 (run ser parse cs s1))))
                      = length (scheduled_jobs (run ser parse cs s1))
                  \<and> getScheduledJobById i (snd (schedule parse now2 t c2 (run ser parse cs s1)))
                      = Some (old\<lparr>sj_cronExpression := c2\<rparr>)
                  \<and> (\<forall>k. k \<noteq> i \<longrightarrow>
                        getScheduledJobById k (snd (schedule parse now2 t c2 (run ser parse cs s1)))
                          = getScheduledJobById k (run ser parse cs s1))
                  \<and> length (filter (\<lambda>r. sj_type r = t)
                       (scheduled_jobs (snd (schedule parse now2 t c2 (run ser parse cs s1))))) = 1
                  \<and> distinct (map sj_type (scheduled_jobs (run ser parse cs s1))))
       \<and> (\<forall>cs. distinct (map sj_type (scheduled_jobs (run ser parse cs s))))"
proof -
  let ?i = "next_rowid (scheduled_jobs_seq s) (map sj_id (scheduled_jobs s))"
  let ?row = "\<lparr>sj_id = ?i, sj_type = t, sj_status = ScheduledIdle, sj_createdAt = now1,
               sj_cronExpression = c1, sj_nextRun = 0\<rparr>"
  let ?s1 = "s\<lparr>scheduled_jobs := scheduled_jobs s @ [?row], scheduled_jobs_seq := ?i\<rparr>"
  have first: "schedule parse now1 t c1 s = (Inr ?i, ?s1)"
    by (rule schedule_insert[where parse=parse, OF c1 new])
  have fresh: "?i \<notin> set (map sj_id (scheduled_jobs s))" by (rule next_rowid_not_in)
  then have none: "getScheduledJobById ?i s = None"
    by (auto simp: getScheduledJobById_def getScheduledJobByIdStmt_def find_None_iff image_iff)
  have ids1: "distinct (map sj_id (scheduled_jobs ?s1))" using ids fresh by simp
  have types1: "distinct (map sj_type (scheduled_jobs ?s1))" using types new by auto
  have later: "\<exists>old. getScheduledJobById ?i (run ser parse cs ?s1) = Some old
                  \<and> sj_type old = t
                  \<and> fst (schedule parse now2 t c2 (run ser parse cs ?s1)) = Inr ?i
                  \<and> length (scheduled_jobs (snd (schedule parse now2 t c2 (run ser parse cs ?s1))))
                      = length (scheduled_jobs (run ser parse cs ?s1))
                  \<and> getScheduledJobById ?i (snd (schedule parse now2 t c2 (run ser parse cs ?s1)))
                      = Some (old\<lparr>sj_cronExpression := c2\<rparr>)
                  \<and> (\<forall>k. k \<noteq> ?i \<longrightarrow>
                        getScheduledJobById k (snd (schedule parse now2 t c2 (run ser parse cs ?s1)))
                          = getScheduledJobById k (run ser parse cs ?s1))
                  \<and> length (filter (\<lambda>r. sj_type r = t)
                       (scheduled_jobs (snd (schedule parse now2 t c2 (run ser parse cs ?s1))))) = 1
                  \<and> distinct (map sj_type (scheduled_jobs (run ser parse cs ?s1)))" for cs
  proof -
    let ?s' = "run ser parse cs ?s1"
    from run_scheduled_inv[OF ids1 types1, of ser parse cs] obtain ext where
      inv: "distinct (map sj_id (scheduled_jobs ?s'))" "distinct (map sj_type (scheduled_jobs ?s'))"
        "map (\<lambda>r. (sj_id r, sj_type r)) (scheduled_jobs ?s')
           = map (\<lambda>r. (sj_id r, sj_type r)) (scheduled_jobs ?s1) @ ext"
      by blast
    have "(?i, t) \<in> set (map (\<lambda>r. (sj_id r, sj_type r)) (scheduled_jobs ?s'))"
      unfolding inv(3) by simp
    then obtain old where old: "old \<in> set (scheduled_jobs ?s')" "sj_id old = ?i" "sj_type old = t"
      by auto
    from schedule_existing_type[where parse=parse, OF c2 inv(1,2) old(1,3), of now2]
    show ?thesis using old(2,3) inv(2) by (intro exI[of _ old]) simp
  qed
  have always: "distinct (map sj_type (scheduled_jobs (run ser parse cs s)))" for cs
    using run_scheduled_inv[OF ids types, of ser parse cs] by blast
  have "\<exists>i s1. schedule parse now1 t c1 s = (Inr i, s1)
           \<and> scheduled_jobs s1 = scheduled_jobs s @
                [\<lparr>sj_id = i, sj_type = t, sj_status = ScheduledIdle, sj_createdAt = now1,
                  sj_cronExpression = c1, sj_nextRun = 0\<rparr>]
           \<and> getScheduledJobById i s = None
           \<and> (\<forall>cs. \<exists>old. getScheduledJobById i (run ser parse cs s1) = Some old
                  \<and> sj_type old = t
                  \<and> fst (schedule parse now2 t c2 (run ser parse cs s1)) = Inr i
                  \<and> length (scheduled_jobs (snd (schedule parse now2 t c2 (run ser parse cs s1))))
                      = length (scheduled_jobs (run ser parse cs s1))
                  \<and> getScheduledJobById i (snd (schedule parse now2 t c2 (run ser parse cs s1)))
                      = Some (old\<lparr>sj_cronExpression := c2\<rparr>)
                  \<and> (\<forall>k. k \<noteq> i \<longrightarrow>
                        getScheduledJobById k (snd (schedule parse now2 t c2 (run ser parse cs s1)))
                          = getScheduledJobById k (run ser parse cs s1))
                  \<and> length (filter (\<lambda>r. sj_type r = t)
                       (scheduled_jobs (snd (schedule parse now2 t c2 (run ser parse cs s1))))) = 1
                  \<and> distinct (map sj_type (scheduled_jobs (run ser parse cs s1))))"
    using first none later by (intro exI[of _ ?i] exI[of _ ?s1]) simp
  then show ?thesis using always by blast
qed

theorem schedule_upsert_by_type_witness:
  "sample_parseExpression ''0 * * * *'' = Inr ()
   \<and> sample_parseExpression ''*/30 * * * *'' = Inr ()
   \<and> (case schedule sample_parseExpression 3 ''updateTest'' ''0 * * * *'' empty_store of
        (r1, s1) \<Rightarrow> r1 = Inr 1
          \<and> (case schedule sample_parseExpression 4 ''updateTest'' ''*/30 * * * *'' s1 of
               (r2, s2) \<Rightarrow> r2 = Inr 1
                 \<and> scheduled_jobs s2
                     = [\<lparr>sj_id = 1, sj_type = ''updateTest'', sj_status = ScheduledIdle,
                         sj_createdAt = 3, sj_cronExpression = ''*/30 * * * *'',
                         sj_nextRun = 0\<rparr>]))"
  using schedule_upsert_by_type[of sample_parseExpression "''0 * * * *''" "''*/30 * * * *''"
          empty_store "''updateTest''" 3 Some 4]
  by (simp add: sample_parseExpression_def schedule_def empty_store_def
        getScheduledJobByTypeStmt_def insertScheduledJobStmt_def next_rowid_def
        updateScheduledJobCronExpressionStmt_def sql_update_def)

section \<open>countJobs with an empty type\<close>

text \<open>
  C10. When \<open>countJobs\<close> is called with type equal to the empty string, the type filter is
  ignored: \<open>countJobs({type: ""})\<close> is the number of all jobs, and
  \<open>countJobs({type: "", status: st})\<close> is the number of jobs with status \<open>st\<close> of every
  type, because the dispatch tests the truthiness of the type string.
\<close>

theorem countJobs_empty_type_ignored:
  "countJobs (Some \<lparr>opt_type = Some '''', opt_status = None\<rparr>) s = length (jobs s)
   \<and> countJobs (Some \<lparr>opt_type = Some '''', opt_status = Some st\<rparr>) s
       = length (filter (\<lambda>r. j_status r = st) (jobs s))"
  by (simp add: countJobs_def truthy_def countJobsStmt_def countJobsByStatusStmt_def)

theorem countJobs_empty_type_ignored_witness:
  "countJobs (Some \<lparr>opt_type = Some '''', opt_status = None\<rparr>) retention_store = 5
   \<and> countJobs (Some \<lparr>opt_type = Some '''', opt_status = Some Done\<rparr>) retention_store = 2
   \<and> countJobsByTypeStmt '''' (jobs retention_store) = 0"
  using countJobs_empty_type_ignored[of retention_store Done]
  by (simp add: retention_store_def countJobsByTypeStmt_def)

end
